theory Spec2Isabelle
  imports Complex_Main "HOL-Library.Sublist"
begin

section \<open>Strings\<close>

text \<open>
  A JavaScript string is a sequence of UTF-16 code units.  The model uses \<^typ>\<open>string\<close>,
  whose characters are the code units \<open>0x00 .. 0xFF\<close>; on that range the character classes
  below are the ones of ECMAScript.
\<close>

definition isSpace :: "char \<Rightarrow> bool" where
  \<comment> \<open>the class \<open>\s\<close> (also what \<open>trim\<close> removes): TAB, LF, VT, FF, CR, SP, NBSP\<close>
  "isSpace c = (c \<in> set [CHR 0x09, CHR 0x0A, CHR 0x0B, CHR 0x0C, CHR 0x0D, CHR 0x20, CHR 0xA0])"

definition isLineTerminator :: "char \<Rightarrow> bool" where
  \<comment> \<open>what \<open>.\<close> does not match\<close>
  "isLineTerminator c = (c \<in> set [CHR 0x0A, CHR 0x0D])"

definition isDigit :: "char \<Rightarrow> bool" where
  "isDigit c = (c \<in> set ''0123456789'')"

definition isLowerAlnum :: "char \<Rightarrow> bool" where
  \<comment> \<open>the class \<open>[a-z0-9]\<close>\<close>
  "isLowerAlnum c = (c \<in> set ''abcdefghijklmnopqrstuvwxyz0123456789'')"

definition upperChars :: string where
  "upperChars = ''ABCDEFGHIJKLMNOPQRSTUVWXYZ'' @
     [CHR 0xC0, CHR 0xC1, CHR 0xC2, CHR 0xC3, CHR 0xC4, CHR 0xC5, CHR 0xC6, CHR 0xC7,
      CHR 0xC8, CHR 0xC9, CHR 0xCA, CHR 0xCB, CHR 0xCC, CHR 0xCD, CHR 0xCE, CHR 0xCF,
      CHR 0xD0, CHR 0xD1, CHR 0xD2, CHR 0xD3, CHR 0xD4, CHR 0xD5, CHR 0xD6,
      CHR 0xD8, CHR 0xD9, CHR 0xDA, CHR 0xDB, CHR 0xDC, CHR 0xDD, CHR 0xDE]"

definition lowerChars :: string where
  "lowerChars = ''abcdefghijklmnopqrstuvwxyz'' @
     [CHR 0xE0, CHR 0xE1, CHR 0xE2, CHR 0xE3, CHR 0xE4, CHR 0xE5, CHR 0xE6, CHR 0xE7,
      CHR 0xE8, CHR 0xE9, CHR 0xEA, CHR 0xEB, CHR 0xEC, CHR 0xED, CHR 0xEE, CHR 0xEF,
      CHR 0xF0, CHR 0xF1, CHR 0xF2, CHR 0xF3, CHR 0xF4, CHR 0xF5, CHR 0xF6,
      CHR 0xF8, CHR 0xF9, CHR 0xFA, CHR 0xFB, CHR 0xFC, CHR 0xFD, CHR 0xFE]"

definition toLowerChar :: "char \<Rightarrow> char" where
  "toLowerChar c = (case map_of (zip upperChars lowerChars) c of Some d \<Rightarrow> d | None \<Rightarrow> c)"

definition toLowerCase :: "string \<Rightarrow> string" where
  "toLowerCase s = map toLowerChar s"

definition trim :: "string \<Rightarrow> string" where
  "trim s = rev (dropWhile isSpace (rev (dropWhile isSpace s)))"

fun endsWith :: "string \<Rightarrow> string \<Rightarrow> bool" where
  "endsWith s suf = suffix suf s"

text \<open>\<open>s.split(c)\<close> for a one-character separator: the empty string gives one empty piece.\<close>

fun splitOn :: "(char \<Rightarrow> bool) \<Rightarrow> string \<Rightarrow> string list" where
  "splitOn p [] = [[]]"
| "splitOn p (c # cs) =
     (if p c then [] # splitOn p cs
      else (case splitOn p cs of [] \<Rightarrow> [[c]] | w # ws \<Rightarrow> (c # w) # ws))"

text \<open>\<open>xs.join(sep)\<close>\<close>

fun join :: "string \<Rightarrow> string list \<Rightarrow> string" where
  "join sep [] = []"
| "join sep [x] = x"
| "join sep (x # y # ys) = x @ sep @ join sep (y # ys)"

text \<open>\<open>s.split(/\s+/)\<close>: maximal whitespace runs separate the pieces; a run at either end
  leaves an empty piece there, and the empty string gives one empty piece.\<close>

function splitWs :: "string \<Rightarrow> string list" where
  "splitWs [] = [[]]"
| "splitWs (c # cs) =
     (if isSpace c then [] # splitWs (dropWhile isSpace cs)
      else (case splitWs cs of [] \<Rightarrow> [[c]] | w # ws \<Rightarrow> (c # w) # ws))"
  by pat_completeness auto
termination
  by (relation "measure length") (auto simp: length_dropWhile_le less_Suc_eq_le)

text \<open>\<open>s.replace(pat, rep)\<close> with a string pattern replaces the first occurrence only.\<close>

fun replaceFirst :: "string \<Rightarrow> string \<Rightarrow> string \<Rightarrow> string" where
  "replaceFirst pat rep [] = (if pat = [] then rep else [])"
| "replaceFirst pat rep (c # cs) =
     (if prefix pat (c # cs) then rep @ drop (length pat) (c # cs)
      else c # replaceFirst pat rep cs)"

section \<open>The regular expressions of the codec\<close>

text \<open>
  The regular expressions of \<open>parseFrontmatter\<close> are sequences of literal characters, an
  optional character, greedy and lazy repetitions of a character class, and one capture
  group.  \<open>rmatch\<close> is the backtracking matcher of ECMAScript on that fragment, anchored at
  the start of its input: a greedy repetition tries the longest run first, a lazy one the
  shortest, and the first way of matching the whole expression wins.  The result is the
  inputs left at the two group brackets and the input left after the match.
\<close>

datatype cls = Space | Dot | AnyChar | Digit | DigitDot

fun in_cls :: "cls \<Rightarrow> char \<Rightarrow> bool" where
  "in_cls Space c = isSpace c"
| "in_cls Dot c = (\<not> isLineTerminator c)"
| "in_cls AnyChar c = True"
| "in_cls Digit c = isDigit c"
| "in_cls DigitDot c = (isDigit c \<or> c = CHR ''.'')"

datatype atom = Chr char | Opt char | Star cls | Plus cls | Lazy cls | GOpen | GClose

fun rmatch :: "atom list \<Rightarrow> string \<Rightarrow> (string list \<times> string) option" where
  "rmatch [] s = Some ([], s)"
| "rmatch (Chr c # r) [] = None"
| "rmatch (Chr c # r) (x # xs) = (if x = c then rmatch r xs else None)"
| "rmatch (Opt c # r) [] = rmatch r []"
| "rmatch (Opt c # r) (x # xs) =
     (if x = c then (case rmatch r xs of Some res \<Rightarrow> Some res | None \<Rightarrow> rmatch r (x # xs))
      else rmatch r (x # xs))"
| "rmatch (Star k # r) [] = rmatch r []"
| "rmatch (Star k # r) (x # xs) =
     (if in_cls k x
      then (case rmatch (Star k # r) xs of Some res \<Rightarrow> Some res | None \<Rightarrow> rmatch r (x # xs))
      else rmatch r (x # xs))"
| "rmatch (Plus k # r) [] = None"
| "rmatch (Plus k # r) (x # xs) = (if in_cls k x then rmatch (Star k # r) xs else None)"
| "rmatch (Lazy k # r) [] = rmatch r []"
| "rmatch (Lazy k # r) (x # xs) =
     (case rmatch r (x # xs) of Some res \<Rightarrow> Some res
      | None \<Rightarrow> if in_cls k x then rmatch (Lazy k # r) xs else None)"
| "rmatch (GOpen # r) s = map_option (\<lambda>(ms, rest). (s # ms, rest)) (rmatch r s)"
| "rmatch (GClose # r) s = map_option (\<lambda>(ms, rest). (s # ms, rest)) (rmatch r s)"

text \<open>An expression without \<open>^\<close> is tried at every position from the left.\<close>

fun rsearch :: "atom list \<Rightarrow> string \<Rightarrow> (string list \<times> string) option" where
  "rsearch re [] = rmatch re []"
| "rsearch re (x # xs) =
     (case rmatch re (x # xs) of Some res \<Rightarrow> Some res | None \<Rightarrow> rsearch re xs)"

definition lit :: "string \<Rightarrow> atom list" where
  "lit s = map Chr s"

text \<open>The text of capture group 1 of a match.\<close>

fun group1 :: "string list \<times> string \<Rightarrow> string" where
  "group1 (a # b # _, _) = take (length a - length b) a"
| "group1 _ = []"

section \<open>Numbers\<close>

text \<open>
  The usage counters are non-negative integers and are modelled by \<^typ>\<open>nat\<close>; a
  JavaScript number holds every integer below \<open>2^53\<close> exactly.  The importance of a file is
  either a written constant or the result of \<open>parseFloat\<close> on a string of digits and dots,
  so it is \<open>NaN\<close> or a non-negative decimal: \<open>Dec m k\<close> stands for \<open>m / 10^k\<close>, kept in
  lowest terms (\<open>k = 0\<close> or \<open>m\<close> not a multiple of ten).  Arithmetic on scores is exact
  rational arithmetic with \<open>NaN\<close>; binary rounding is not modelled.  The code holds an
  importance as the double nearest to the decimal and prints the shortest digits that
  denote that double: a decimal of at most 15 significant digits is printed as it was
  read, and of a longer one the model keeps digits that the code rounds away.
\<close>

datatype jsnum = NaN | Dec nat nat

definition digitVal :: "char \<Rightarrow> nat" where
  "digitVal c = length (takeWhile (\<lambda>d. d \<noteq> c) ''0123456789'')"

definition digitChar :: "nat \<Rightarrow> char" where
  "digitChar d = ''0123456789'' ! d"

definition natOfDigits :: "string \<Rightarrow> nat" where
  "natOfDigits s = foldl (\<lambda>n c. 10 * n + digitVal c) 0 s"

function digitsOf :: "nat \<Rightarrow> string" where
  "digitsOf n = (if n < 10 then [digitChar n] else digitsOf (n div 10) @ [digitChar (n mod 10)])"
  by pat_completeness auto
termination
  by (relation "measure id") auto

declare digitsOf.simps [simp del]

fun normDec :: "nat \<Rightarrow> nat \<Rightarrow> jsnum" where
  "normDec m 0 = Dec m 0"
| "normDec m (Suc k) = (if m mod 10 = 0 then normDec (m div 10) k else Dec m (Suc k))"

text \<open>\<open>parseInt(s, 10)\<close> on a match of \<open>\d+\<close>.\<close>

definition parseInt :: "string \<Rightarrow> nat" where
  "parseInt s = natOfDigits s"

text \<open>\<open>parseFloat(s)\<close> on a match of \<open>[\d.]+\<close>: the longest prefix that is a decimal
  literal (digits, then optionally a dot and digits; at least one digit), \<open>NaN\<close> when there
  is none.\<close>

definition parseFloat :: "string \<Rightarrow> jsnum" where
  "parseFloat s =
     (let ip = takeWhile isDigit s;
          fp = (case dropWhile isDigit s of
                  [] \<Rightarrow> []
                | c # cs \<Rightarrow> if c = CHR ''.'' then takeWhile isDigit cs else [])
      in if ip = [] \<and> fp = [] then NaN else normDec (natOfDigits (ip @ fp)) (length fp))"

fun numLe :: "jsnum \<Rightarrow> jsnum \<Rightarrow> bool" where
  "numLe (Dec m k) (Dec m' k') = (m * 10 ^ k' \<le> m' * 10 ^ k)"
| "numLe _ _ = False"

text \<open>\<open>Math.min\<close> and \<open>Math.max\<close> return \<open>NaN\<close> when an argument is \<open>NaN\<close>.\<close>

fun mathMin :: "jsnum \<Rightarrow> jsnum \<Rightarrow> jsnum" where
  "mathMin NaN _ = NaN"
| "mathMin _ NaN = NaN"
| "mathMin a b = (if numLe a b then a else b)"

fun mathMax :: "jsnum \<Rightarrow> jsnum \<Rightarrow> jsnum" where
  "mathMax NaN _ = NaN"
| "mathMax _ NaN = NaN"
| "mathMax a b = (if numLe a b then b else a)"

text \<open>
  \<open>Number::toString\<close>: with \<open>s\<close> the significant digits and \<open>n\<close> the position of the
  decimal point, plain notation is used for \<open>-6 < n \<le> 21\<close> and exponent notation outside.
\<close>

definition stripZeros :: "string \<Rightarrow> string" where
  "stripZeros s = rev (dropWhile (\<lambda>c. c = CHR ''0'') (rev s))"

definition expDigits :: "string \<Rightarrow> string" where
  "expDigits s = (case s of [] \<Rightarrow> [] | [d] \<Rightarrow> [d] | d # ds \<Rightarrow> d # CHR ''.'' # ds)"

fun numToString :: "jsnum \<Rightarrow> string" where
  "numToString NaN = ''NaN''"
| "numToString (Dec m 0) =
     (let ds = digitsOf m in
      if length ds \<le> 21 then ds
      else expDigits (stripZeros ds) @ ''e+'' @ digitsOf (length ds - 1))"
| "numToString (Dec m (Suc k)) =
     (let ds = digitsOf m in
      if Suc k < length ds then take (length ds - Suc k) ds @ ''.'' @ drop (length ds - Suc k) ds
      else if Suc k - length ds < 6 then ''0.'' @ replicate (Suc k - length ds) (CHR ''0'') @ ds
      else expDigits ds @ ''e-'' @ digitsOf (Suc k - length ds + 1))"

section \<open>The frontmatter codec\<close>

record UsageStats =
  loaded :: nat
  referenced :: nat
  successfulFeatures :: nat

record MemoryMetadata =
  tags :: "string list"
  summary :: string
  relevantTo :: "string list"
  importance :: jsnum
  relatedFiles :: "string list"
  usageStats :: UsageStats

definition createDefaultMetadata :: MemoryMetadata where
  "createDefaultMetadata =
     \<lparr> tags = [], summary = [], relevantTo = [], importance = Dec 5 1, relatedFiles = [],
       usageStats = \<lparr> loaded = 0, referenced = 0, successfulFeatures = 0 \<rparr> \<rparr>"

abbreviation LF :: char where "LF \<equiv> CHR 0x0A"
abbreviation CR :: char where "CR \<equiv> CHR 0x0D"
abbreviation dquote :: char where "dquote \<equiv> CHR 0x22"
abbreviation squote :: char where "squote \<equiv> CHR 0x27"
abbreviation backslash :: char where "backslash \<equiv> CHR 0x5C"

definition isQuote :: "char \<Rightarrow> bool" where
  "isQuote c = (c = dquote \<or> c = squote)"

text \<open>\<open>/^---\s*\r?\n([\s\S]*?)\r?\n---\s*\r?\n/\<close>\<close>

definition frontmatterRegex :: "atom list" where
  "frontmatterRegex =
     lit ''---'' @ [Star Space, Opt CR, Chr LF, GOpen, Lazy AnyChar, GClose, Opt CR, Chr LF]
     @ lit ''---'' @ [Star Space, Opt CR, Chr LF]"

text \<open>\<open>/key:\s*\[(.*?)\]/\<close>, for the keys \<open>tags\<close>, \<open>relevantTo\<close> and \<open>relatedFiles\<close>\<close>

definition listRegex :: "string \<Rightarrow> atom list" where
  "listRegex key = lit key @ [Chr (CHR '':''), Star Space, Chr (CHR ''[''), GOpen, Lazy Dot, GClose,
     Chr (CHR '']'')]"

text \<open>\<open>/summary:\s*(.+)/\<close>\<close>

definition summaryRegex :: "atom list" where
  "summaryRegex = lit ''summary:'' @ [Star Space, GOpen, Plus Dot, GClose]"

text \<open>\<open>/importance:\s*([\d.]+)/\<close>\<close>

definition importanceRegex :: "atom list" where
  "importanceRegex = lit ''importance:'' @ [Star Space, GOpen, Plus DigitDot, GClose]"

text \<open>\<open>/key:\s*(\d+)/\<close>, for the keys \<open>loaded\<close>, \<open>referenced\<close> and \<open>successfulFeatures\<close>\<close>

definition countRegex :: "string \<Rightarrow> atom list" where
  "countRegex key = lit key @ [Chr (CHR '':''), Star Space, GOpen, Plus Digit, GClose]"

text \<open>\<open>g.split(',').map((t) => t.trim().replace(/['"]/g, '')).filter((t) => t.length > 0)\<close>\<close>

definition parseList :: "string \<Rightarrow> string list" where
  "parseList g =
     filter (\<lambda>t. length t > 0)
       (map (\<lambda>t. filter (\<lambda>c. \<not> isQuote c) (trim t)) (splitOn (\<lambda>c. c = CHR '','') g))"

text \<open>\<open>s.replace(/^["']|["']$/g, '')\<close>: one quote is removed at the start, and one at the
  end of what is left.\<close>

definition stripQuotes :: "string \<Rightarrow> string" where
  "stripQuotes s =
     (let s1 = (case s of [] \<Rightarrow> [] | c # cs \<Rightarrow> if isQuote c then cs else s)
      in if s1 \<noteq> [] \<and> isQuote (last s1) then butlast s1 else s1)"

text \<open>
  \<open>parseFrontmatter\<close>.  Nothing in the body of its \<open>try\<close> can throw (matching, splitting,
  \<open>parseFloat\<close> and \<open>parseInt\<close> are defined on every string), so the \<open>catch\<close> branch is
  unreachable and has no counterpart here.
\<close>

definition parseFrontmatter :: "string \<Rightarrow> MemoryMetadata \<times> string" where
  "parseFrontmatter content =
     (case rmatch frontmatterRegex content of
        None \<Rightarrow> (createDefaultMetadata, content)
      | Some mt \<Rightarrow>
          (let frontmatterStr = group1 mt;
               body = snd mt;
               metadata = createDefaultMetadata;
               metadata = (case rsearch (listRegex ''tags'') frontmatterStr of
                   None \<Rightarrow> metadata
                 | Some g \<Rightarrow> metadata\<lparr>tags := parseList (group1 g)\<rparr>);
               metadata = (case rsearch summaryRegex frontmatterStr of
                   None \<Rightarrow> metadata
                 | Some g \<Rightarrow> metadata\<lparr>summary := stripQuotes (trim (group1 g))\<rparr>);
               metadata = (case rsearch (listRegex ''relevantTo'') frontmatterStr of
                   None \<Rightarrow> metadata
                 | Some g \<Rightarrow> metadata\<lparr>relevantTo := parseList (group1 g)\<rparr>);
               metadata = (case rsearch importanceRegex frontmatterStr of
                   None \<Rightarrow> metadata
                 | Some g \<Rightarrow> metadata\<lparr>importance :=
                     mathMax (Dec 0 0) (mathMin (Dec 1 0) (parseFloat (group1 g)))\<rparr>);
               metadata = (case rsearch (listRegex ''relatedFiles'') frontmatterStr of
                   None \<Rightarrow> metadata
                 | Some g \<Rightarrow> metadata\<lparr>relatedFiles := parseList (group1 g)\<rparr>);
               stats = usageStats metadata;
               stats = (case rsearch (countRegex ''loaded'') frontmatterStr of
                   None \<Rightarrow> stats
                 | Some g \<Rightarrow> stats\<lparr>loaded := parseInt (group1 g)\<rparr>);
               stats = (case rsearch (countRegex ''referenced'') frontmatterStr of
                   None \<Rightarrow> stats
                 | Some g \<Rightarrow> stats\<lparr>referenced := parseInt (group1 g)\<rparr>);
               stats = (case rsearch (countRegex ''successfulFeatures'') frontmatterStr of
                   None \<Rightarrow> stats
                 | Some g \<Rightarrow> stats\<lparr>successfulFeatures := parseInt (group1 g)\<rparr>)
           in (metadata\<lparr>usageStats := stats\<rparr>, body)))"

text \<open>\<open>escapeYamlString\<close>: the test is \<open>/[:\[\]{}#&*!|>'"%@`\n\r]/\<close>.\<close>

definition yamlSpecial :: "char \<Rightarrow> bool" where
  "yamlSpecial c = (c \<in> set ('':[]{}#&*!|>%@`'' @ [squote, dquote, LF, CR]))"

definition escapeYamlString :: "string \<Rightarrow> string" where
  "escapeYamlString str =
     (if (\<exists>c \<in> set str. yamlSpecial c) \<or> trim str \<noteq> str
      then [dquote] @ concat (map (\<lambda>c. if c = dquote then [backslash, dquote] else [c]) str)
           @ [dquote]
      else str)"

definition serializeFrontmatter :: "MemoryMetadata \<Rightarrow> string" where
  "serializeFrontmatter metadata =
     (let escapedTags = map escapeYamlString (tags metadata);
          escapedRelevantTo = map escapeYamlString (relevantTo metadata);
          escapedRelatedFiles = map escapeYamlString (relatedFiles metadata);
          escapedSummary = escapeYamlString (summary metadata)
      in ''---'' @ [LF]
       @ ''tags: ['' @ join '', '' escapedTags @ '']'' @ [LF]
       @ ''summary: '' @ escapedSummary @ [LF]
       @ ''relevantTo: ['' @ join '', '' escapedRelevantTo @ '']'' @ [LF]
       @ ''importance: '' @ numToString (importance metadata) @ [LF]
       @ ''relatedFiles: ['' @ join '', '' escapedRelatedFiles @ '']'' @ [LF]
       @ ''usageStats:'' @ [LF]
       @ ''  loaded: '' @ digitsOf (loaded (usageStats metadata)) @ [LF]
       @ ''  referenced: '' @ digitsOf (referenced (usageStats metadata)) @ [LF]
       @ ''  successfulFeatures: '' @ digitsOf (successfulFeatures (usageStats metadata)) @ [LF]
       @ ''---'')"

text \<open>
  The shape of an input that begins with a complete delimited block, stated on the text
  alone: a delimiter line (three dashes, optional white space, a line feed), any header
  text, a line feed, and a second delimiter line.
\<close>

definition isDelimLine :: "string \<Rightarrow> bool" where
  "isDelimLine l = (prefix ''---'' l \<and> list_all isSpace (drop 3 l) \<and> l \<noteq> [] \<and> last l = LF)"

definition hasFrontmatterBlock :: "string \<Rightarrow> bool" where
  "hasFrontmatterBlock s =
     (\<exists>i \<in> set [0..<Suc (length s)]. \<exists>j \<in> set [i..<length s]. \<exists>k \<in> set [Suc j..<Suc (length s)].
        isDelimLine (take i s) \<and> s ! j = LF \<and> isDelimLine (take (k - Suc j) (drop (Suc j) s)))"

section \<open>Usage score\<close>

text \<open>\<open>calculateUsageScore\<close>, in exact rational arithmetic.\<close>

definition calculateUsageScore :: "UsageStats \<Rightarrow> rat" where
  "calculateUsageScore stats =
     (if loaded stats = 0 then 1
      else
        let referenceRate = of_nat (referenced stats) / of_nat (loaded stats);
            successRate = (if referenced stats > 0
                           then of_nat (successfulFeatures stats) / of_nat (referenced stats)
                           else 0)
        in 5 / 10 + referenceRate * (3 / 10) + successRate * (2 / 10))"

section \<open>The words the matcher accepts\<close>

text \<open>
  \<open>accepts re w\<close>: the word \<open>w\<close> belongs to the language of \<open>re\<close>.  Whatever \<open>rmatch\<close>
  consumes is such a word.
\<close>

fun accepts :: "atom list \<Rightarrow> string \<Rightarrow> bool" where
  "accepts [] w = (w = [])"
| "accepts (Chr c # r) w = (\<exists>v. w = c # v \<and> accepts r v)"
| "accepts (Opt c # r) w = (accepts r w \<or> (\<exists>v. w = c # v \<and> accepts r v))"
| "accepts (Star k # r) w = (\<exists>u v. w = u @ v \<and> list_all (in_cls k) u \<and> accepts r v)"
| "accepts (Plus k # r) w = (\<exists>u v. w = u @ v \<and> u \<noteq> [] \<and> list_all (in_cls k) u \<and> accepts r v)"
| "accepts (Lazy k # r) w = (\<exists>u v. w = u @ v \<and> list_all (in_cls k) u \<and> accepts r v)"
| "accepts (GOpen # r) w = accepts r w"
| "accepts (GClose # r) w = accepts r w"

section \<open>The file system\<close>

text \<open>
  The functions reach the disk through an injected module (\<open>MemoryFsModule\<close>) whose
  operations return promises that may reject.  The model is an in-memory store: a path
  maps to the text of a file, and a path may be marked as one whose reads, or whose
  writes, are rejected.  Directories are implicit.
\<close>

datatype fsError = ENOENT | EACCES

record fsys =
  files :: "string \<rightharpoonup> string"
  unreadable :: "string set"
  unwritable :: "string set"

definition access :: "fsys \<Rightarrow> string \<Rightarrow> fsError + unit" where
  "access fs p = (case files fs p of None \<Rightarrow> Inl ENOENT | Some _ \<Rightarrow> Inr ())"

definition readFile :: "fsys \<Rightarrow> string \<Rightarrow> fsError + string" where
  "readFile fs p =
     (case files fs p of
        None \<Rightarrow> Inl ENOENT
      | Some c \<Rightarrow> if p \<in> unreadable fs then Inl EACCES else Inr c)"

definition writeFile :: "fsys \<Rightarrow> string \<Rightarrow> string \<Rightarrow> fsError + fsys" where
  "writeFile fs p c =
     (if p \<in> unwritable fs then Inl EACCES else Inr (fs\<lparr>files := (files fs)(p \<mapsto> c)\<rparr>))"

definition appendFile :: "fsys \<Rightarrow> string \<Rightarrow> string \<Rightarrow> fsError + fsys" where
  "appendFile fs p c =
     (if p \<in> unwritable fs then Inl EACCES
      else Inr (fs\<lparr>files := (files fs)(p \<mapsto> (case files fs p of None \<Rightarrow> c | Some old \<Rightarrow> old @ c))\<rparr>))"

text \<open>\<open>path.join\<close> of a directory and a file name without separators (POSIX).\<close>

definition pathJoin :: "string \<Rightarrow> string \<Rightarrow> string" where
  "pathJoin dir name = dir @ ''/'' @ name"

definition getMemoryDir :: "string \<Rightarrow> string" where
  "getMemoryDir projectPath = pathJoin (pathJoin projectPath ''.automaker'') ''memory''"

section \<open>Usage tracking\<close>

datatype statName = Loaded | Referenced | SuccessfulFeatures

fun getStat :: "statName \<Rightarrow> UsageStats \<Rightarrow> nat" where
  "getStat Loaded u = loaded u"
| "getStat Referenced u = referenced u"
| "getStat SuccessfulFeatures u = successfulFeatures u"

text \<open>\<open>metadata.usageStats[stat]++\<close>\<close>

fun incrementStat :: "statName \<Rightarrow> UsageStats \<Rightarrow> UsageStats" where
  "incrementStat Loaded u = u\<lparr>loaded := loaded u + 1\<rparr>"
| "incrementStat Referenced u = u\<lparr>referenced := referenced u + 1\<rparr>"
| "incrementStat SuccessfulFeatures u = u\<lparr>successfulFeatures := successfulFeatures u + 1\<rparr>"

text \<open>
  \<open>incrementUsageStat\<close>, run on its own: \<open>withFileLock\<close> finds no lock pending on the
  path, runs the operation and leaves the lock table as it found it.  The \<open>catch\<close> turns
  a rejected read or write into a normal return.
\<close>

definition incrementUsageStat :: "fsys \<Rightarrow> string \<Rightarrow> statName \<Rightarrow> (fsError + unit) \<times> fsys" where
  "incrementUsageStat fs filePath stat =
     (case readFile fs filePath of
        Inl e \<Rightarrow> (Inr (), fs)
      | Inr content \<Rightarrow>
          (let (metadata, body) = parseFrontmatter content;
               metadata = metadata\<lparr>usageStats := incrementStat stat (usageStats metadata)\<rparr>;
               newContent = serializeFrontmatter metadata @ [LF] @ body
           in case writeFile fs filePath newContent of
                Inl e \<Rightarrow> (Inr (), fs)
              | Inr fs' \<Rightarrow> (Inr (), fs')))"

section \<open>Recording a learning\<close>

datatype learningType = Decision | Learning | Pattern | Gotcha

record LearningEntry =
  category :: string
  ltype :: learningType
  lcontent :: string
  lcontext :: "string option"
  why :: "string option"
  rejected :: "string option"
  tradeoffs :: "string option"
  breaking :: "string option"

text \<open>An optional field contributes its line when it is present and not the empty string
  (\<open>if (learning.context)\<close>).\<close>

definition bullet :: "string \<Rightarrow> string option \<Rightarrow> string list" where
  "bullet label v =
     (case v of None \<Rightarrow> [] | Some t \<Rightarrow> if t = [] then [] else [''- **'' @ label @ '':** '' @ t])"

text \<open>\<open>formatLearning\<close>; the calendar date \<open>new Date().toISOString().split('T')[0]\<close> is a
  parameter.\<close>

definition formatLearning :: "string \<Rightarrow> LearningEntry \<Rightarrow> string" where
  "formatLearning date learning =
     (case ltype learning of
        Decision \<Rightarrow>
          join [LF]
            ([[LF] @ ''### '' @ lcontent learning @ '' ('' @ date @ '')'']
             @ bullet ''Context'' (lcontext learning)
             @ bullet ''Why'' (why learning)
             @ bullet ''Rejected'' (rejected learning)
             @ bullet ''Trade-offs'' (tradeoffs learning)
             @ bullet ''Breaking if changed'' (breaking learning))
      | Gotcha \<Rightarrow>
          join [LF]
            ([[LF] @ ''#### [Gotcha] '' @ lcontent learning @ '' ('' @ date @ '')'']
             @ bullet ''Situation'' (lcontext learning)
             @ bullet ''Root cause'' (why learning)
             @ bullet ''How to avoid'' (tradeoffs learning))
      | _ \<Rightarrow>
          join [LF]
            ([[LF] @ ''#### '' @ (if ltype learning = Pattern then ''[Pattern]'' else ''[Learned]'')
                @ '' '' @ lcontent learning @ '' ('' @ date @ '')'']
             @ bullet ''Problem solved'' (lcontext learning)
             @ bullet ''Why this works'' (why learning)
             @ bullet ''Trade-offs'' (tradeoffs learning)))"

text \<open>\<open>s.replace(/\s+/g, '-')\<close>\<close>

function hyphenateSpaces :: "string \<Rightarrow> string" where
  "hyphenateSpaces [] = []"
| "hyphenateSpaces (c # cs) =
     (if isSpace c then CHR ''-'' # hyphenateSpaces (dropWhile isSpace cs)
      else c # hyphenateSpaces cs)"
  by pat_completeness auto
termination
  by (relation "measure length") (auto simp: length_dropWhile_le less_Suc_eq_le)

text \<open>\<open>category.toLowerCase().replace(/\s+/g, '-').replace(/[^a-z0-9-]/g, '')\<close>\<close>

definition sanitizeCategory :: "string \<Rightarrow> string" where
  "sanitizeCategory cat =
     filter (\<lambda>c. isLowerAlnum c \<or> c = CHR ''-'') (hyphenateSpaces (toLowerCase cat))"

text \<open>\<open>sanitizedCategory || 'general'\<close>\<close>

definition categoryOrGeneral :: "string \<Rightarrow> string" where
  "categoryOrGeneral cat = (if sanitizeCategory cat = [] then ''general'' else sanitizeCategory cat)"

definition learningPath :: "string \<Rightarrow> LearningEntry \<Rightarrow> string" where
  "learningPath projectPath learning =
     pathJoin (getMemoryDir projectPath) (categoryOrGeneral (category learning) @ ''.md'')"

definition seedMetadata :: "LearningEntry \<Rightarrow> MemoryMetadata" where
  "seedMetadata learning =
     \<lparr> tags = [categoryOrGeneral (category learning)],
       summary = category learning @ '' implementation decisions and patterns'',
       relevantTo = [categoryOrGeneral (category learning)],
       importance = Dec 7 1,
       relatedFiles = [],
       usageStats = \<lparr> loaded = 0, referenced = 0, successfulFeatures = 0 \<rparr> \<rparr>"

text \<open>
  \<open>appendLearning\<close>, run on its own.  The \<open>try\<close> covers \<open>access\<close> and \<open>appendFile\<close>; a
  rejection of either enters the \<open>catch\<close>, whose \<open>writeFile\<close> is not guarded, so its
  rejection is the rejection of the call.
\<close>

definition appendLearning ::
  "fsys \<Rightarrow> string \<Rightarrow> string \<Rightarrow> LearningEntry \<Rightarrow> (fsError + unit) \<times> fsys" where
  "appendLearning fs projectPath date learning =
     (let filePath = learningPath projectPath learning;
          create =
            (let content = serializeFrontmatter (seedMetadata learning)
                   @ [LF] @ ''# '' @ category learning @ [LF] @ formatLearning date learning
             in case writeFile fs filePath content of
                  Inl e \<Rightarrow> (Inl e, fs)
                | Inr fs' \<Rightarrow> (Inr (), fs'))
      in case access fs filePath of
           Inl e \<Rightarrow> create
         | Inr _ \<Rightarrow>
             (case appendFile fs filePath ([LF] @ formatLearning date learning) of
                Inl e \<Rightarrow> create
              | Inr fs' \<Rightarrow> (Inr (), fs')))"

section \<open>Scoring and selection of memory files\<close>

definition stopWords :: "string list" where
  "stopWords =
     [''a'', ''an'', ''the'', ''and'', ''or'', ''but'', ''in'', ''on'', ''at'', ''to'', ''for'',
      ''of'', ''with'', ''by'', ''is'', ''it'', ''this'', ''that'', ''be'', ''as'', ''are'',
      ''was'', ''were'', ''been'', ''being'', ''have'', ''has'', ''had'', ''do'', ''does'',
      ''did'', ''will'', ''would'', ''could'', ''should'', ''may'', ''might'', ''must'',
      ''shall'', ''can'', ''need'', ''dare'', ''ought'', ''used'', ''add'', ''create'',
      ''implement'', ''build'', ''make'', ''update'', ''fix'', ''change'', ''modify'']"

text \<open>\<open>text.toLowerCase().replace(/[^a-z0-9\s]/g, ' ').split(/\s+/).filter(...)\<close>\<close>

definition extractTerms :: "string \<Rightarrow> string list" where
  "extractTerms text =
     filter (\<lambda>word. length word > 2 \<and> word \<notin> set stopWords)
       (splitWs (map (\<lambda>c. if isLowerAlnum c \<or> isSpace c then c else CHR '' '') (toLowerCase text)))"

text \<open>\<open>countMatches\<close>: the entries of \<open>arr1\<close> that are, in lower case, in the set of the
  lower-cased entries of \<open>arr2\<close>.\<close>

definition countMatches :: "string list \<Rightarrow> string list \<Rightarrow> nat" where
  "countMatches arr1 arr2 =
     length (filter (\<lambda>t. toLowerCase t \<in> set (map toLowerCase arr2)) arr1)"

text \<open>A score is a rational number or \<open>NaN\<close>; the latter arises from an importance that is
  \<open>NaN\<close>.\<close>

datatype score = ScoreNaN | Score rat

fun numScore :: "jsnum \<Rightarrow> score" where
  "numScore NaN = ScoreNaN"
| "numScore (Dec m k) = Score (of_nat m / 10 ^ k)"

fun scoreMul :: "score \<Rightarrow> score \<Rightarrow> score" where
  "scoreMul (Score a) (Score b) = Score (a * b)"
| "scoreMul _ _ = ScoreNaN"

text \<open>\<open>x > 0\<close> and \<open>a > b\<close> on scores: false when an operand is \<open>NaN\<close>.\<close>

fun scorePositive :: "score \<Rightarrow> bool" where
  "scorePositive (Score a) = (a > 0)"
| "scorePositive ScoreNaN = False"

fun scoreGreater :: "score \<Rightarrow> score \<Rightarrow> bool" where
  "scoreGreater (Score a) (Score b) = (a > b)"
| "scoreGreater _ _ = False"

text \<open>\<open>fileName.replace('.md', '').split(/[-_]/).filter((t) => t.length > 2)\<close>\<close>

definition categoryTerms :: "string \<Rightarrow> string list" where
  "categoryTerms fileName =
     filter (\<lambda>t. length t > 2)
       (splitOn (\<lambda>c. c = CHR ''-'' \<or> c = CHR ''_'') (replaceFirst ''.md'' [] fileName))"

text \<open>The relevance score that \<open>loadContextFiles\<close> gives to one candidate.\<close>

definition relevanceScore :: "string list \<Rightarrow> string \<Rightarrow> MemoryMetadata \<Rightarrow> score" where
  "relevanceScore taskTerms fileName metadata =
     (if length taskTerms > 0 then
        let tagScore = countMatches (tags metadata) taskTerms * 3;
            relevantToScore = countMatches (relevantTo metadata) taskTerms * 2;
            summaryTerms = extractTerms (summary metadata);
            summaryScore = countMatches summaryTerms taskTerms;
            categoryScore = countMatches (categoryTerms fileName) taskTerms * 4;
            usageScore = calculateUsageScore (usageStats metadata)
        in scoreMul
             (scoreMul (Score (of_nat (tagScore + relevantToScore + summaryScore + categoryScore)))
                (numScore (importance metadata)))
             (Score usageScore)
      else numScore (importance metadata))"

record ScoredFile =
  fileName :: string
  filePath :: string
  body :: string
  metadata :: MemoryMetadata
  score :: score

text \<open>The loop that reads and scores the candidates: \<open>entries\<close> are the names in the
  memory directory, in directory order; a file that cannot be read is skipped, and so is
  one whose body is empty after trimming.\<close>

definition isCandidateName :: "string \<Rightarrow> bool" where
  "isCandidateName f = (endsWith (toLowerCase f) ''.md'' \<and> toLowerCase f \<noteq> ''_index.md'')"

fun scoreFiles :: "fsys \<Rightarrow> string \<Rightarrow> string list \<Rightarrow> string list \<Rightarrow> ScoredFile list" where
  "scoreFiles fs memoryDir taskTerms [] = []"
| "scoreFiles fs memoryDir taskTerms (name # names) =
     (case readFile fs (pathJoin memoryDir name) of
        Inl e \<Rightarrow> scoreFiles fs memoryDir taskTerms names
      | Inr rawContent \<Rightarrow>
          (let (md, bd) = parseFrontmatter rawContent in
           if trim bd = [] then scoreFiles fs memoryDir taskTerms names
           else \<lparr> fileName = name, filePath = pathJoin memoryDir name, body = bd, metadata = md,
                  score = relevanceScore taskTerms name md \<rparr>
                # scoreFiles fs memoryDir taskTerms names))"

text \<open>\<open>scoredFiles.sort((a, b) => b.score - a.score)\<close>: a stable sort, highest score first;
  a comparison that involves \<open>NaN\<close> counts as a tie.  With a \<open>NaN\<close> among the scores the
  comparator is not an order and the sort of the engine may arrange the list otherwise;
  so may it two scores that are equal as doubles and differ here.  What is proved of the
  selection is proved for every list of candidates, in whatever order.\<close>

fun insertByScore :: "ScoredFile \<Rightarrow> ScoredFile list \<Rightarrow> ScoredFile list" where
  "insertByScore x [] = [x]"
| "insertByScore x (y # ys) =
     (if scoreGreater (score y) (score x) then y # insertByScore x ys else x # y # ys)"

definition sortByScore :: "ScoredFile list \<Rightarrow> ScoredFile list" where
  "sortByScore xs = foldr insertByScore xs []"

text \<open>\<open>selectedFiles\<close> is a \<open>Set\<close> of names: a list without repetitions, in insertion
  order, whose length is the set's \<open>size\<close>.\<close>

definition setAdd :: "string \<Rightarrow> string list \<Rightarrow> string list" where
  "setAdd x sel = (if x \<in> set sel then sel else sel @ [x])"

fun addImportant :: "int \<Rightarrow> ScoredFile list \<Rightarrow> string list \<Rightarrow> string list" where
  "addImportant maxMemoryFiles [] sel = sel"
| "addImportant maxMemoryFiles (f # fs) sel =
     addImportant maxMemoryFiles fs
       (if numLe (Dec 9 1) (importance (metadata f)) \<and> int (length sel) < maxMemoryFiles
        then setAdd (fileName f) sel else sel)"

fun addScoring :: "int \<Rightarrow> ScoredFile list \<Rightarrow> string list \<Rightarrow> string list" where
  "addScoring maxMemoryFiles [] sel = sel"
| "addScoring maxMemoryFiles (f # fs) sel =
     addScoring maxMemoryFiles fs
       (if scorePositive (score f) \<and> int (length sel) < maxMemoryFiles
        then setAdd (fileName f) sel else sel)"

definition selectFiles :: "int \<Rightarrow> string list \<Rightarrow> ScoredFile list \<Rightarrow> string list" where
  "selectFiles maxMemoryFiles taskTerms scoredFiles =
     (if maxMemoryFiles > 0 then
        let sel = (if \<exists>f \<in> set scoredFiles. fileName f = ''gotchas.md''
                   then setAdd ''gotchas.md'' [] else []);
            sel = addImportant maxMemoryFiles scoredFiles sel
        in if length taskTerms > 0 then addScoring maxMemoryFiles scoredFiles sel else sel
      else [])"

text \<open>The memory part of \<open>loadContextFiles\<close>: the names selected among the entries of the
  memory directory, and the files handed back (those of the sorted list whose name is
  selected).\<close>

definition selectedMemory ::
  "fsys \<Rightarrow> string \<Rightarrow> string list \<Rightarrow> int \<Rightarrow> string list \<Rightarrow> string list" where
  "selectedMemory fs projectPath taskTerms maxMemoryFiles entries =
     selectFiles maxMemoryFiles taskTerms
       (sortByScore (scoreFiles fs (getMemoryDir projectPath) taskTerms
          (filter isCandidateName entries)))"

definition memoryFiles ::
  "fsys \<Rightarrow> string \<Rightarrow> string list \<Rightarrow> int \<Rightarrow> string list \<Rightarrow> ScoredFile list" where
  "memoryFiles fs projectPath taskTerms maxMemoryFiles entries =
     (let scoredFiles = sortByScore (scoreFiles fs (getMemoryDir projectPath) taskTerms
            (filter isCandidateName entries))
      in filter (\<lambda>f. fileName f \<in> set (selectFiles maxMemoryFiles taskTerms scoredFiles))
           scoredFiles)"

text \<open>
  The match count in the words of the specification: the number of task terms that
  occur, without regard to case, in a collection of terms.  \<open>specRelevanceScore\<close> is the
  score with every count taken that way.
\<close>

definition specMatchCount :: "string list \<Rightarrow> string list \<Rightarrow> nat" where
  "specMatchCount taskTerms collection =
     length (remdups (filter (\<lambda>t. t \<in> set (map toLowerCase collection))
                        (map toLowerCase taskTerms)))"

definition specRelevanceScore :: "string list \<Rightarrow> string \<Rightarrow> MemoryMetadata \<Rightarrow> score" where
  "specRelevanceScore taskTerms name md =
     (if taskTerms = [] then numScore (importance md)
      else scoreMul
             (scoreMul
                (Score (of_nat (specMatchCount taskTerms (tags md) * 3
                   + specMatchCount taskTerms (relevantTo md) * 2
                   + specMatchCount taskTerms (extractTerms (summary md)) * 1
                   + specMatchCount taskTerms (categoryTerms name) * 4)))
                (numScore (importance md)))
             (Score (calculateUsageScore (usageStats md))))"

section \<open>Metadata that survives a round trip\<close>

text \<open>
  Conditions under which serializing and parsing again gives the metadata and the body
  back.  They are sufficient, not necessary: a field name followed by a colon is kept out
  of every string, since each field is found by the first occurrence of its name, and the
  importance is kept to the decimals on which the model of numbers is exact.
\<close>

fun containsStr :: "string \<Rightarrow> string \<Rightarrow> bool" where
  "containsStr [] k = (k = [])"
| "containsStr (x # xs) k = (prefix k (x # xs) \<or> containsStr xs k)"

definition fieldKeys :: "string list" where
  "fieldKeys = [''summary:'', ''relevantTo:'', ''importance:'', ''relatedFiles:'',
                ''loaded:'', ''referenced:'', ''successfulFeatures:'']"

definition noFieldKey :: "string \<Rightarrow> bool" where
  "noFieldKey s = (\<forall>k \<in> set fieldKeys. \<not> containsStr s k)"

definition plainEntry :: "string \<Rightarrow> bool" where
  "plainEntry t =
     (t \<noteq> [] \<and> (\<forall>c \<in> set t. \<not> isQuote c \<and> c \<noteq> CHR '','' \<and> c \<noteq> CHR '']'' \<and> \<not> isLineTerminator c)
      \<and> noFieldKey t)"

definition plainSummary :: "string \<Rightarrow> bool" where
  "plainSummary s =
     (s \<noteq> [] \<and> (\<forall>c \<in> set s. c \<noteq> dquote \<and> \<not> isLineTerminator c) \<and> noFieldKey s)"

text \<open>An importance that is 0, 1, or a decimal below 1 that is printed in plain notation
  (at least \<open>0.000001\<close>) and has at most 15 significant digits, so that the decimal is the
  shortest one that denotes its double.\<close>

fun plainImportance :: "jsnum \<Rightarrow> bool" where
  "plainImportance NaN = False"
| "plainImportance (Dec m 0) = (m \<le> 1)"
| "plainImportance (Dec m (Suc k)) =
     (m mod 10 \<noteq> 0 \<and> m < 10 ^ Suc k \<and> Suc k < length (digitsOf m) + 6
      \<and> length (digitsOf m) \<le> 15)"

definition plainBody :: "string \<Rightarrow> bool" where
  "plainBody b = (LF \<notin> set (takeWhile isSpace b))"

definition roundTrippable :: "MemoryMetadata \<Rightarrow> bool" where
  "roundTrippable m =
     (list_all plainEntry (tags m) \<and> plainSummary (summary m)
      \<and> list_all plainEntry (relevantTo m) \<and> plainImportance (importance m)
      \<and> list_all plainEntry (relatedFiles m)
      \<and> loaded (usageStats m) < 2 ^ 53 \<and> referenced (usageStats m) < 2 ^ 53
      \<and> successfulFeatures (usageStats m) < 2 ^ 53)"

text \<open>The text between the delimiter lines of a serialized header, given the serialized
  values of the fields.\<close>

definition headerText ::
  "string \<Rightarrow> string \<Rightarrow> string \<Rightarrow> string \<Rightarrow> string \<Rightarrow> string \<Rightarrow> string \<Rightarrow> string \<Rightarrow> string" where
  "headerText X Y Z N W a b c =
     ''tags: ['' @ X @ '']'' @ [LF]
     @ ''summary: '' @ Y @ [LF]
     @ ''relevantTo: ['' @ Z @ '']'' @ [LF]
     @ ''importance: '' @ N @ [LF]
     @ ''relatedFiles: ['' @ W @ '']'' @ [LF]
     @ ''usageStats:'' @ [LF]
     @ ''  loaded: '' @ a @ [LF]
     @ ''  referenced: '' @ b @ [LF]
     @ ''  successfulFeatures: '' @ c"

section \<open>Concurrent calls of incrementUsageStat on one file\<close>

text \<open>
  Calls that overlap in time, on one path whose file exists and can be read and written.
  A call of \<open>withFileLock\<close> runs without interruption up to its next \<open>await\<close>, so a call
  is in one of four states: waiting for the lock promise it found in \<open>fileLocks\<close>
  (\<open>await existingLock\<close>); having set its own lock promise and issued \<open>readFile\<close>; having
  computed the new content and issued \<open>writeFile\<close>; returned.  \<open>fileLocks\<close> holds at most
  one promise for the path; promises are numbered.

  \<^item> \<open>startCall\<close>: the synchronous part of a new call.  It reads \<open>fileLocks\<close>; if a promise
    is there it waits for it, otherwise it acquires.
  \<^item> \<open>acquire\<close>: \<open>fileLocks.set(filePath, lockPromise)\<close> with a new promise, then
    \<open>operation()\<close> up to \<open>await fsModule.readFile\<close>.  A call that resumes from
    \<open>await existingLock\<close> continues here: the source does not look at \<open>fileLocks\<close> again.
  \<^item> \<open>readDone\<close>: the read of a call completes with the current content; the call
    parses, increments, serializes and issues \<open>writeFile\<close>.
  \<^item> \<open>writeDone\<close>: the write of a call completes; the \<open>finally\<close> block resolves the
    call's promise and deletes the entry of the path from \<open>fileLocks\<close>; then the calls that
    waited for that promise resume, in the order in which they started waiting.
\<close>

datatype callState = Waiting nat | Reading nat | Writing nat string | Returned

record lockWorld =
  fileText :: string
  fileLocks :: "nat option"
  calls :: "callState list"
  nextPromise :: nat

text \<open>The content that the operation of \<open>incrementUsageStat\<close> writes after reading
  \<open>content\<close>.\<close>

definition updatedContent :: "statName \<Rightarrow> string \<Rightarrow> string" where
  "updatedContent stat content =
     (let (md, bd) = parseFrontmatter content;
          md = md\<lparr>usageStats := incrementStat stat (usageStats md)\<rparr>
      in serializeFrontmatter md @ [LF] @ bd)"

definition acquire :: "nat \<Rightarrow> lockWorld \<Rightarrow> lockWorld" where
  "acquire i w =
     w\<lparr>fileLocks := Some (nextPromise w),
       calls := (calls w)[i := Reading (nextPromise w)],
       nextPromise := nextPromise w + 1\<rparr>"

definition startCall :: "lockWorld \<Rightarrow> lockWorld" where
  "startCall w =
     (case fileLocks w of
        Some p \<Rightarrow> w\<lparr>calls := calls w @ [Waiting p]\<rparr>
      | None \<Rightarrow> acquire (length (calls w)) (w\<lparr>calls := calls w @ [Returned]\<rparr>))"

definition readDone :: "statName \<Rightarrow> nat \<Rightarrow> lockWorld \<Rightarrow> lockWorld" where
  "readDone stat i w =
     (if i < length (calls w) then
        (case calls w ! i of
           Reading p \<Rightarrow> w\<lparr>calls := (calls w)[i := Writing p (updatedContent stat (fileText w))]\<rparr>
         | _ \<Rightarrow> w)
      else w)"

definition resumeWaiters :: "nat \<Rightarrow> lockWorld \<Rightarrow> lockWorld" where
  "resumeWaiters p w =
     fold (\<lambda>j v. if calls v ! j = Waiting p then acquire j v else v) [0..<length (calls w)] w"

definition writeDone :: "nat \<Rightarrow> lockWorld \<Rightarrow> lockWorld" where
  "writeDone i w =
     (if i < length (calls w) then
        (case calls w ! i of
           Writing p c \<Rightarrow>
             resumeWaiters p
               (w\<lparr>fileText := c, calls := (calls w)[i := Returned], fileLocks := None\<rparr>)
         | _ \<Rightarrow> w)
      else w)"

datatype ioEvent = ReadDone nat | WriteDone nat

fun ioStep :: "statName \<Rightarrow> ioEvent \<Rightarrow> lockWorld \<Rightarrow> lockWorld" where
  "ioStep stat (ReadDone i) w = readDone stat i w"
| "ioStep stat (WriteDone i) w = writeDone i w"

text \<open>\<open>n\<close> calls issued one after the other without an \<open>await\<close> between them, on a file
  with the given content and an empty lock table; then the completions of the schedule.\<close>

definition concurrentCalls :: "nat \<Rightarrow> string \<Rightarrow> lockWorld" where
  "concurrentCalls n content =
     (startCall ^^ n) \<lparr>fileText = content, fileLocks = None, calls = [], nextPromise = 0\<rparr>"

definition runCalls :: "statName \<Rightarrow> nat \<Rightarrow> string \<Rightarrow> ioEvent list \<Rightarrow> lockWorld" where
  "runCalls stat n content schedule = fold (ioStep stat) schedule (concurrentCalls n content)"

section \<open>What a match consumes\<close>

text \<open>The input that \<open>rmatch\<close> consumes is a word of the expression.\<close>

lemma accepts_Star_Cons:
  "in_cls k x \<Longrightarrow> accepts (Star k # r) w \<Longrightarrow> accepts (Star k # r) (x # w)"
  apply simp
  apply (erule exE)+
  subgoal for u v
    apply (rule exI[of _ "x # u"])
    apply simp
    done
  done

lemma accepts_Star_skip: "accepts r w \<Longrightarrow> accepts (Star k # r) w"
  apply simp
  apply (rule exI[of _ "[]"])
  apply simp
  done

lemma accepts_Lazy_Cons:
  "in_cls k x \<Longrightarrow> accepts (Lazy k # r) w \<Longrightarrow> accepts (Lazy k # r) (x # w)"
  apply simp
  apply (erule exE)+
  subgoal for u v
    apply (rule exI[of _ "x # u"])
    apply simp
    done
  done

lemma accepts_Lazy_skip: "accepts r w \<Longrightarrow> accepts (Lazy k # r) w"
  apply simp
  apply (rule exI[of _ "[]"])
  apply simp
  done

lemma accepts_Plus_Cons:
  "in_cls k x \<Longrightarrow> accepts (Star k # r) w \<Longrightarrow> accepts (Plus k # r) (x # w)"
  apply simp
  apply (erule exE)+
  subgoal for u v
    apply (rule exI[of _ "x # u"])
    apply simp
    done
  done



lemma rmatch_sound:
  "rmatch re s = Some (ms, rest) \<Longrightarrow> \<exists>w. s = w @ rest \<and> accepts re w"
proof (induction re s arbitrary: ms rest rule: rmatch.induct)
  case (1 s)
  then show ?case by simp
next
  case (2 c r)
  then show ?case by simp
next
  case (3 c r x xs)
  from 3(2) have e: "x = c" and m: "rmatch r xs = Some (ms, rest)"
    by (simp_all split: if_splits)
  from 3(1)[OF e m] obtain w where "xs = w @ rest" "accepts r w" by blast
  then have "x # xs = (c # w) @ rest \<and> accepts (Chr c # r) (c # w)" using e by simp
  then show ?case by blast
next
  case (4 c r)
  from 4(2) have "rmatch r [] = Some (ms, rest)" by simp
  from 4(1)[OF this] show ?case by auto
next
  case (5 c r x xs)
  show ?case
  proof (cases "x = c \<and> rmatch r xs \<noteq> None")
    case True
    then have e: "x = c" and m: "rmatch r xs = Some (ms, rest)" using 5(4) by (auto split: option.splits)
    from 5(1)[OF e m] obtain w where "xs = w @ rest" "accepts r w" by blast
    then have "x # xs = (c # w) @ rest \<and> accepts (Opt c # r) (c # w)" using e by simp
    then show ?thesis by blast
  next
    case False
    then have m: "rmatch r (x # xs) = Some (ms, rest)" using 5(4) by (auto split: if_splits option.splits)
    have "\<exists>w. x # xs = w @ rest \<and> accepts r w"
    proof (cases "x = c")
      case True
      with False have "rmatch r xs = None" by (cases "rmatch r xs") auto
      from 5(2)[OF True this m] show ?thesis .
    next
      case F: False
      from 5(3)[OF F m] show ?thesis .
    qed
    then show ?thesis by auto
  qed
next
  case (6 k r)
  from 6(2) have "rmatch r [] = Some (ms, rest)" by simp
  from 6(1)[OF this] show ?case using accepts_Star_skip by blast
next
  case (7 k r x xs)
  show ?case
  proof (cases "in_cls k x \<and> rmatch (Star k # r) xs \<noteq> None")
    case True
    then have t: "in_cls k x" and m: "rmatch (Star k # r) xs = Some (ms, rest)"
      using 7(4) by (auto split: option.splits)
    from 7(1)[OF t m] obtain w where w: "xs = w @ rest" "accepts (Star k # r) w" by blast
    then have "x # xs = (x # w) @ rest" by simp
    moreover have "accepts (Star k # r) (x # w)" using accepts_Star_Cons t w by blast
    ultimately show ?thesis by blast
  next
    case False
    then have m: "rmatch r (x # xs) = Some (ms, rest)" using 7(4) by (auto split: if_splits option.splits)
    have "\<exists>w. x # xs = w @ rest \<and> accepts r w"
    proof (cases "in_cls k x")
      case True
      with False have "rmatch (Star k # r) xs = None" by (cases "rmatch (Star k # r) xs") auto
      from 7(2)[OF True this m] show ?thesis .
    next
      case F: False
      from 7(3)[OF F m] show ?thesis .
    qed
    then show ?thesis using accepts_Star_skip by blast
  qed
next
  case (8 k r)
  then show ?case by simp
next
  case (9 k r x xs)
  from 9(2) have t: "in_cls k x" and m: "rmatch (Star k # r) xs = Some (ms, rest)"
    by (simp_all split: if_splits)
  from 9(1)[OF t m] obtain w where w: "xs = w @ rest" "accepts (Star k # r) w" by blast
  then have "x # xs = (x # w) @ rest" by simp
  moreover have "accepts (Plus k # r) (x # w)" using accepts_Plus_Cons t w by blast
  ultimately show ?case by blast
next
  case (10 k r)
  from 10(2) have "rmatch r [] = Some (ms, rest)" by simp
  from 10(1)[OF this] show ?case using accepts_Lazy_skip by blast
next
  case (11 k r x xs)
  show ?case
  proof (cases "rmatch r (x # xs)")
    case (Some res)
    then have m: "rmatch r (x # xs) = Some (ms, rest)" using 11(3) by simp
    from 11(1)[OF m] show ?thesis using accepts_Lazy_skip by blast
  next
    case None
    with 11(3) have t: "in_cls k x" and m: "rmatch (Lazy k # r) xs = Some (ms, rest)"
      by (simp_all split: if_splits)
    from 11(2)[OF None t m] obtain w where w: "xs = w @ rest" "accepts (Lazy k # r) w" by blast
    then have "x # xs = (x # w) @ rest" by simp
    moreover have "accepts (Lazy k # r) (x # w)" using accepts_Lazy_Cons t w by blast
    ultimately show ?thesis by blast
  qed
next
  case (12 r s)
  from 12(2) obtain ms' where "rmatch r s = Some (ms', rest)" by auto
  from 12(1)[OF this] show ?case by simp
next
  case (13 r s)
  from 13(2) obtain ms' where "rmatch r s = Some (ms', rest)" by auto
  from 13(1)[OF this] show ?case by simp
qed

section \<open>Inputs without a frontmatter block\<close>

lemma isSpace_CR: "isSpace CR" by (simp add: isSpace_def)

lemma in_upt: "x \<in> set [a..<b] \<longleftrightarrow> a \<le> x \<and> x < b"
  by (simp only: set_upt atLeastLessThan_iff)

lemma hasFrontmatterBlock_intro:
  assumes "isDelimLine a" "isDelimLine c"
  shows "hasFrontmatterBlock (a @ h @ [LF] @ c @ b)"
proof -
  let ?s = "a @ h @ [LF] @ c @ b"
  let ?i = "length a" and ?j = "length a + length h"
  let ?k = "Suc (length a + length h) + length c"
  have 1: "take ?i ?s = a" by simp
  have 2: "?s ! ?j = LF" by (simp add: nth_append)
  have 3: "take (?k - Suc ?j) (drop (Suc ?j) ?s) = c" by simp
  have 4: "?i \<in> set [0..<Suc (length ?s)]" unfolding in_upt by simp
  have 5: "?j \<in> set [?i..<length ?s]" unfolding in_upt by simp
  have 6: "?k \<in> set [Suc ?j..<Suc (length ?s)]" unfolding in_upt by simp
  have "isDelimLine (take ?i ?s) \<and> ?s ! ?j = LF
      \<and> isDelimLine (take (?k - Suc ?j) (drop (Suc ?j) ?s))"
    using assms by (simp only: 1 2 3)
  then show ?thesis
    unfolding hasFrontmatterBlock_def using 4 5 6 by blast
qed

lemma hasFrontmatterBlock_elim:
  assumes "hasFrontmatterBlock s"
  shows "\<exists>a h c b. s = a @ h @ [LF] @ c @ b \<and> isDelimLine a \<and> isDelimLine c"
proof -
  from assms obtain i j k where
    m: "j \<in> set [i..<length s]" "k \<in> set [Suc j..<Suc (length s)]"
    and a: "isDelimLine (take i s)" and l: "s ! j = LF"
    and c: "isDelimLine (take (k - Suc j) (drop (Suc j) s))"
    unfolding hasFrontmatterBlock_def by blast
  from m have j: "i \<le> j" "j < length s" and k: "Suc j \<le> k" "k \<le> length s"
    unfolding in_upt by simp_all
  let ?a = "take i s" and ?h = "take (j - i) (drop i s)"
  let ?c = "take (k - Suc j) (drop (Suc j) s)" and ?b = "drop k s"
  have 1: "s = ?a @ drop i s" by simp
  have "drop (j - i) (drop i s) = drop j s" using j by simp
  then have 2: "drop i s = ?h @ drop j s" by (metis append_take_drop_id)
  have 3: "drop j s = [LF] @ drop (Suc j) s"
    using Cons_nth_drop_Suc[OF j(2)] l by simp
  have "drop (k - Suc j) (drop (Suc j) s) = drop k s" using k by simp
  then have 4: "drop (Suc j) s = ?c @ ?b" by (metis append_take_drop_id)
  have "s = ?a @ ?h @ [LF] @ ?c @ ?b"
    using 1 2 3 4 by metis
  then show ?thesis using a c by blast
qed

lemma isDelimLine_open:
  assumes "list_all isSpace u"
  shows "isDelimLine (''---'' @ u @ [LF])" "isDelimLine (''---'' @ u @ [CR, LF])"
  using assms by (simp_all add: isDelimLine_def isSpace_CR isSpace_def)

lemma accepts_crlf:
  "accepts (Opt CR # Chr LF # r) w \<Longrightarrow>
     (\<exists>v. w = LF # v \<and> accepts r v) \<or> (\<exists>v. w = CR # LF # v \<and> accepts r v)"
  by auto

lemma accepts_delim:
  assumes "accepts ([Star Space, Opt CR, Chr LF] @ r) w"
  shows "\<exists>d v. w = d @ v \<and> isDelimLine (''---'' @ d) \<and> accepts r v"
proof -
  from assms have "\<exists>u v1. w = u @ v1 \<and> list_all (in_cls Space) u \<and> accepts (Opt CR # Chr LF # r) v1"
    by simp
  then obtain u v1 where u: "w = u @ v1" "list_all (in_cls Space) u"
    and v1: "accepts (Opt CR # Chr LF # r) v1" by blast
  have us: "list_all isSpace u" using u(2) by (simp add: list_all_iff)
  from accepts_crlf[OF v1] show ?thesis
  proof
    assume "\<exists>v. v1 = LF # v \<and> accepts r v"
    then obtain v where v: "v1 = LF # v" "accepts r v" by blast
    have "w = (u @ [LF]) @ v" using u v by simp
    moreover have "isDelimLine (''---'' @ (u @ [LF]))" using isDelimLine_open(1)[OF us] by simp
    ultimately show ?thesis using v(2) by blast
  next
    assume "\<exists>v. v1 = CR # LF # v \<and> accepts r v"
    then obtain v where v: "v1 = CR # LF # v" "accepts r v" by blast
    have "w = (u @ [CR, LF]) @ v" using u v by simp
    moreover have "isDelimLine (''---'' @ (u @ [CR, LF]))" using isDelimLine_open(2)[OF us] by simp
    ultimately show ?thesis using v(2) by blast
  qed
qed

lemma accepts_lit: "accepts (lit l @ r) w \<Longrightarrow> \<exists>v. w = l @ v \<and> accepts r v"
  by (induction l arbitrary: w) (auto simp: lit_def)

lemma frontmatterRegex_accepts:
  assumes "accepts frontmatterRegex w"
  shows "hasFrontmatterBlock (w @ rest)"
proof -
  let ?r3 = "[Star Space, Opt CR, Chr LF]"
  let ?r2 = "[Opt CR, Chr LF] @ lit ''---'' @ ?r3 @ []"
  let ?r1 = "[GOpen, Lazy AnyChar, GClose] @ ?r2"
  have "frontmatterRegex = lit ''---'' @ ?r3 @ ?r1" by (simp add: frontmatterRegex_def)
  with assms have "accepts (lit ''---'' @ ?r3 @ ?r1) w" by simp
  then obtain v0 where v0: "w = ''---'' @ v0" "accepts (?r3 @ ?r1) v0"
    using accepts_lit by blast
  from accepts_delim[OF v0(2)] obtain d v1 where
    d: "v0 = d @ v1" "isDelimLine (''---'' @ d)" and v1: "accepts ?r1 v1" by blast
  from v1 have "\<exists>h0 v2. v1 = h0 @ v2 \<and> accepts ?r2 v2" by simp blast
  then obtain h0 v2 where h0: "v1 = h0 @ v2" and v2: "accepts ?r2 v2" by blast
  from v2 have "accepts (Opt CR # Chr LF # lit ''---'' @ ?r3 @ []) v2" by simp
  from accepts_crlf[OF this] have "\<exists>h1 v3. v2 = h1 @ [LF] @ v3 \<and> accepts (lit ''---'' @ ?r3 @ []) v3"
  proof
    assume "\<exists>v. v2 = LF # v \<and> accepts (lit ''---'' @ ?r3 @ []) v"
    then obtain v where "v2 = [] @ [LF] @ v" "accepts (lit ''---'' @ ?r3 @ []) v" by auto
    then show ?thesis by blast
  next
    assume "\<exists>v. v2 = CR # LF # v \<and> accepts (lit ''---'' @ ?r3 @ []) v"
    then obtain v where "v2 = [CR] @ [LF] @ v" "accepts (lit ''---'' @ ?r3 @ []) v" by auto
    then show ?thesis by blast
  qed
  then obtain h1 v3 where h1: "v2 = h1 @ [LF] @ v3" and v3: "accepts (lit ''---'' @ ?r3 @ []) v3"
    by blast
  from v3 obtain v4 where v4: "v3 = ''---'' @ v4" "accepts (?r3 @ []) v4"
    using accepts_lit by blast
  from accepts_delim[OF v4(2)] obtain e v5 where
    e: "v4 = e @ v5" "isDelimLine (''---'' @ e)" and v5: "accepts [] v5" by blast
  have "v5 = []" using v5 by simp
  then have "w @ rest = (''---'' @ d) @ (h0 @ h1) @ [LF] @ (''---'' @ e) @ rest"
    using v0 d h0 h1 v4 e by simp
  then show ?thesis using hasFrontmatterBlock_intro[OF d(2) e(2)] by metis
qed

lemma rmatch_frontmatter_block:
  "rmatch frontmatterRegex s = Some mt \<Longrightarrow> hasFrontmatterBlock s"
  using rmatch_sound[of frontmatterRegex s "fst mt" "snd mt"] frontmatterRegex_accepts
  by auto

lemma parse_no_block:
  "\<not> hasFrontmatterBlock s \<Longrightarrow> parseFrontmatter s = (createDefaultMetadata, s)"
  using rmatch_frontmatter_block[of s]
  by (cases "rmatch frontmatterRegex s") (auto simp: parseFrontmatter_def)

section \<open>Claims about the usage score\<close>

text \<open>
  C5 (amended).  \<open>calculateUsageScore\<close> returns exactly 1 when \<open>loaded\<close> is 0.  When
  \<open>loaded\<close> is positive it returns \<open>0.5 + (referenced / loaded) * 0.3 + successRate * 0.2\<close>,
  where \<open>successRate\<close> is \<open>successfulFeatures / referenced\<close> if \<open>referenced\<close> is positive and
  0 otherwise; this value is at least 0.5, and it is at most 1 when
  \<open>referenced \<le> loaded\<close> and \<open>successfulFeatures \<le> referenced\<close>.
\<close>

theorem calculateUsageScore_value:
  "(loaded stats = 0 \<longrightarrow> calculateUsageScore stats = 1) \<and>
   (loaded stats > 0 \<longrightarrow>
      calculateUsageScore stats =
        5 / 10 + (of_nat (referenced stats) / of_nat (loaded stats)) * (3 / 10)
          + (if referenced stats > 0
             then of_nat (successfulFeatures stats) / of_nat (referenced stats) else 0) * (2 / 10)
      \<and> 5 / 10 \<le> calculateUsageScore stats
      \<and> (referenced stats \<le> loaded stats \<and> successfulFeatures stats \<le> referenced stats
           \<longrightarrow> calculateUsageScore stats \<le> 1))"
proof -
  define r :: rat where "r = of_nat (referenced stats) / of_nat (loaded stats)"
  define q :: rat where "q = (if referenced stats > 0
             then of_nat (successfulFeatures stats) / of_nat (referenced stats) else 0)"
  have eq: "calculateUsageScore stats = 5 / 10 + r * (3 / 10) + q * (2 / 10)"
    if "loaded stats > 0"
    using that by (simp add: calculateUsageScore_def Let_def r_def q_def)
  have r0: "0 \<le> r" by (simp add: r_def)
  have q0: "0 \<le> q" by (simp add: q_def)
  have r1: "r \<le> 1" if "loaded stats > 0" "referenced stats \<le> loaded stats"
    using that by (simp add: r_def divide_le_eq_1)
  have q1: "q \<le> 1" if "successfulFeatures stats \<le> referenced stats"
    using that by (simp add: q_def divide_le_eq_1)
  have lo: "5 / 10 \<le> calculateUsageScore stats" if "loaded stats > 0"
    using eq[OF that] r0 q0 by simp
  have hi: "calculateUsageScore stats \<le> 1"
    if "loaded stats > 0" "referenced stats \<le> loaded stats"
       "successfulFeatures stats \<le> referenced stats"
    using eq[OF that(1)] r1[OF that(1,2)] q1[OF that(3)] by simp
  have z: "calculateUsageScore stats = 1" if "loaded stats = 0"
    using that by (simp add: calculateUsageScore_def)
  show ?thesis
    using z eq lo hi unfolding r_def q_def by blast
qed

theorem calculateUsageScore_witness:
  "calculateUsageScore \<lparr>loaded = 0, referenced = 0, successfulFeatures = 0\<rparr> = 1
   \<and> calculateUsageScore \<lparr>loaded = 4, referenced = 2, successfulFeatures = 1\<rparr> = 3 / 4
   \<and> (5::rat) / 10 \<le> 3 / 4 \<and> (3::rat) / 4 \<le> 1"
  using calculateUsageScore_value[of "\<lparr>loaded = 0, referenced = 0, successfulFeatures = 0\<rparr>"]
    calculateUsageScore_value[of "\<lparr>loaded = 4, referenced = 2, successfulFeatures = 1\<rparr>"]
  by simp

text \<open>
  C5 as stated fails: the counters are independent, and with one load and two references
  the score is 1.1.
\<close>

theorem calculateUsageScore_counterexample:
  "loaded \<lparr>loaded = 1, referenced = 2, successfulFeatures = 0\<rparr> > 0
   \<and> calculateUsageScore \<lparr>loaded = 1, referenced = 2, successfulFeatures = 0\<rparr> = 11 / 10
   \<and> \<not> (calculateUsageScore \<lparr>loaded = 1, referenced = 2, successfulFeatures = 0\<rparr> \<le> 1)"
  by (simp add: calculateUsageScore_def)

section \<open>Claims about parsing\<close>

text \<open>
  C6.  Parsing a block that contains \<open>importance: 1.5\<close> yields importance 1.  Parsing one
  that contains \<open>importance: -3\<close> does not yield 0: the pattern \<open>[\d.]+\<close> cannot match a
  minus sign, the field counts as absent and the importance stays at its default 0.5; the
  lower clamp \<open>Math.max(0, _)\<close> is never reached by a negative number.
\<close>

theorem parseFrontmatter_importance_clamp:
  "importance (fst (parseFrontmatter ''---\<newline>importance: 1.5\<newline>---\<newline>'')) = Dec 1 0
   \<and> importance (fst (parseFrontmatter ''---\<newline>importance: -3\<newline>---\<newline>'')) = Dec 5 1"
  by code_simp

text \<open>
  C7.  \<open>parseFrontmatter\<close> returns a pair of metadata and body for every input, and when
  the input does not begin with a complete delimited frontmatter block the metadata is the
  default (importance 0.5, empty lists, empty summary, all counters 0) and the body is the
  whole input.
\<close>

theorem parseFrontmatter_total:
  "(\<exists>md bd. parseFrontmatter s = (md, bd)) \<and>
   (\<not> hasFrontmatterBlock s \<longrightarrow>
      parseFrontmatter s = (createDefaultMetadata, s)
      \<and> snd (parseFrontmatter s) = s
      \<and> importance (fst (parseFrontmatter s)) = Dec 5 1
      \<and> tags (fst (parseFrontmatter s)) = []
      \<and> relevantTo (fst (parseFrontmatter s)) = []
      \<and> relatedFiles (fst (parseFrontmatter s)) = []
      \<and> summary (fst (parseFrontmatter s)) = []
      \<and> usageStats (fst (parseFrontmatter s)) = \<lparr>loaded = 0, referenced = 0, successfulFeatures = 0\<rparr>)"
proof
  show "\<exists>md bd. parseFrontmatter s = (md, bd)" by (cases "parseFrontmatter s") blast
next
  show "\<not> hasFrontmatterBlock s \<longrightarrow>
      parseFrontmatter s = (createDefaultMetadata, s)
      \<and> snd (parseFrontmatter s) = s
      \<and> importance (fst (parseFrontmatter s)) = Dec 5 1
      \<and> tags (fst (parseFrontmatter s)) = []
      \<and> relevantTo (fst (parseFrontmatter s)) = []
      \<and> relatedFiles (fst (parseFrontmatter s)) = []
      \<and> summary (fst (parseFrontmatter s)) = []
      \<and> usageStats (fst (parseFrontmatter s)) = \<lparr>loaded = 0, referenced = 0, successfulFeatures = 0\<rparr>"
  proof
    assume "\<not> hasFrontmatterBlock s"
    then have "parseFrontmatter s = (createDefaultMetadata, s)" by (rule parse_no_block)
    then show "parseFrontmatter s = (createDefaultMetadata, s)
      \<and> snd (parseFrontmatter s) = s
      \<and> importance (fst (parseFrontmatter s)) = Dec 5 1
      \<and> tags (fst (parseFrontmatter s)) = []
      \<and> relevantTo (fst (parseFrontmatter s)) = []
      \<and> relatedFiles (fst (parseFrontmatter s)) = []
      \<and> summary (fst (parseFrontmatter s)) = []
      \<and> usageStats (fst (parseFrontmatter s)) = \<lparr>loaded = 0, referenced = 0, successfulFeatures = 0\<rparr>"
      by (simp add: createDefaultMetadata_def)
  qed
qed

theorem parseFrontmatter_total_witness:
  "\<not> hasFrontmatterBlock [] \<and> parseFrontmatter [] = (createDefaultMetadata, [])
   \<and> \<not> hasFrontmatterBlock ''---\<newline>tags: [a]\<newline>importance: 1''
   \<and> parseFrontmatter ''---\<newline>tags: [a]\<newline>importance: 1''
       = (createDefaultMetadata, ''---\<newline>tags: [a]\<newline>importance: 1'')"
proof -
  have 1: "\<not> hasFrontmatterBlock []" by code_simp
  have 2: "\<not> hasFrontmatterBlock ''---\<newline>tags: [a]\<newline>importance: 1''" by code_simp
  show ?thesis
    using 1 2 parseFrontmatter_total[of "[]"]
      parseFrontmatter_total[of "''---\<newline>tags: [a]\<newline>importance: 1''"]
    by blast
qed

section \<open>Claims about usage tracking\<close>

lemma getStat_incrementStat: "getStat st (incrementStat st u) = getStat st u + 1"
  by (cases st) simp_all

lemma incrementStat_others:
  "st' \<noteq> st \<Longrightarrow> getStat st' (incrementStat st u) = getStat st' u"
  by (cases st; cases st') simp_all

lemma incrementUsageStat_unreadable:
  "readFile fs p = Inl e \<Longrightarrow> incrementUsageStat fs p st = (Inr (), fs)"
  by (simp add: incrementUsageStat_def)

lemma incrementUsageStat_written:
  assumes "files fs p = Some c" "p \<notin> unreadable fs" "p \<notin> unwritable fs"
  shows "incrementUsageStat fs p st =
     (Inr (), fs\<lparr>files := (files fs)(p \<mapsto>
        serializeFrontmatter ((fst (parseFrontmatter c))
           \<lparr>usageStats := incrementStat st (usageStats (fst (parseFrontmatter c)))\<rparr>)
        @ [LF] @ snd (parseFrontmatter c))\<rparr>)"
  using assms
  by (simp add: incrementUsageStat_def readFile_def writeFile_def split_beta Let_def)

lemma incrementUsageStat_never_raises: "fst (incrementUsageStat fs p st) = Inr ()"
  by (simp add: incrementUsageStat_def split_beta Let_def split: sum.splits)

lemma digitsOf_0: "digitsOf 0 = ''0''" by (simp add: digitsOf.simps digitChar_def)
lemma digitsOf_1: "digitsOf (Suc 0) = ''1''" by (simp add: digitsOf.simps digitChar_def)

lemma serialize_default_incremented:
  "serializeFrontmatter
     (createDefaultMetadata\<lparr>usageStats := incrementStat st (usageStats createDefaultMetadata)\<rparr>)
   = ''---\<newline>tags: []\<newline>summary: \<newline>relevantTo: []\<newline>importance: 0.5\<newline>relatedFiles: []\<newline>usageStats:\<newline>  loaded: ''
     @ (if st = Loaded then ''1'' else ''0'')
     @ ''\<newline>  referenced: '' @ (if st = Referenced then ''1'' else ''0'')
     @ ''\<newline>  successfulFeatures: '' @ (if st = SuccessfulFeatures then ''1'' else ''0'')
     @ ''\<newline>---''"
  by (cases st)
     (simp_all add: serializeFrontmatter_def createDefaultMetadata_def escapeYamlString_def
        trim_def digitsOf_0 digitsOf_1 digitsOf.simps[of 5] digitChar_def)

text \<open>
  C10.  On an existing, readable and writable file whose content does not begin with a
  frontmatter block, \<open>incrementUsageStat\<close> rewrites the file to a new block with the
  default metadata (importance 0.5, empty lists, the named counter 1 and the others 0),
  a line feed, and the old content unchanged.
\<close>

theorem incrementUsageStat_installs_block:
  assumes "files fs p = Some c" "p \<notin> unreadable fs" "p \<notin> unwritable fs"
    and "\<not> hasFrontmatterBlock c"
  shows "incrementUsageStat fs p st =
     (Inr (), fs\<lparr>files := (files fs)(p \<mapsto>
        ''---\<newline>tags: []\<newline>summary: \<newline>relevantTo: []\<newline>importance: 0.5\<newline>relatedFiles: []\<newline>usageStats:\<newline>  loaded: ''
        @ (if st = Loaded then ''1'' else ''0'')
        @ ''\<newline>  referenced: '' @ (if st = Referenced then ''1'' else ''0'')
        @ ''\<newline>  successfulFeatures: '' @ (if st = SuccessfulFeatures then ''1'' else ''0'')
        @ ''\<newline>---'' @ [LF] @ c)\<rparr>)"
proof -
  have p: "parseFrontmatter c = (createDefaultMetadata, c)"
    using assms(4) by (rule parse_no_block)
  have "incrementUsageStat fs p st =
     (Inr (), fs\<lparr>files := (files fs)(p \<mapsto>
        serializeFrontmatter
          (createDefaultMetadata\<lparr>usageStats := incrementStat st (usageStats createDefaultMetadata)\<rparr>)
        @ [LF] @ c)\<rparr>)"
    using assms(1-3)
    by (simp add: incrementUsageStat_def readFile_def writeFile_def p)
  then show ?thesis by (simp only: serialize_default_incremented) simp
qed

theorem incrementUsageStat_installs_block_witness:
  "files \<lparr>files = [''/m/notes.md'' \<mapsto> ''# Notes''], unreadable = {}, unwritable = {}\<rparr> ''/m/notes.md''
      = Some ''# Notes''
   \<and> \<not> hasFrontmatterBlock ''# Notes''
   \<and> files (snd (incrementUsageStat
         \<lparr>files = [''/m/notes.md'' \<mapsto> ''# Notes''], unreadable = {}, unwritable = {}\<rparr>
         ''/m/notes.md'' Referenced)) ''/m/notes.md''
      = Some ''---\<newline>tags: []\<newline>summary: \<newline>relevantTo: []\<newline>importance: 0.5\<newline>relatedFiles: []\<newline>usageStats:\<newline>  loaded: 0\<newline>  referenced: 1\<newline>  successfulFeatures: 0\<newline>---\<newline># Notes''"
proof -
  let ?fs = "\<lparr>files = [''/m/notes.md'' \<mapsto> ''# Notes''], unreadable = {}, unwritable = {}\<rparr>"
  have h1: "files ?fs ''/m/notes.md'' = Some ''# Notes''" by simp
  have h2: "''/m/notes.md'' \<notin> unreadable ?fs" "''/m/notes.md'' \<notin> unwritable ?fs" by simp_all
  have h3: "\<not> hasFrontmatterBlock ''# Notes''" by code_simp
  show ?thesis
    using h1 h3 incrementUsageStat_installs_block[OF h1 h2 h3, of Referenced] by simp
qed

section \<open>Claims about recording a learning\<close>

lemma sanitizeCategory_chars:
  "set (sanitizeCategory cat) \<subseteq> set ''abcdefghijklmnopqrstuvwxyz0123456789-''"
  by (auto simp: sanitizeCategory_def isLowerAlnum_def)

lemma join_starts: "\<exists>rest. join sep ((x # y # h) # ls) = x # y # rest"
  by (cases ls) simp_all

lemma formatLearning_blank: "\<exists>rest. formatLearning date l = [LF] @ ''#'' @ rest"
  unfolding formatLearning_def
  by (cases "ltype l") (simp_all add: join_starts)

lemma appendLearning_existing:
  assumes "files fs (learningPath projectPath l) = Some old"
    and "learningPath projectPath l \<notin> unwritable fs"
  shows "appendLearning fs projectPath date l =
     (Inr (), fs\<lparr>files := (files fs)(learningPath projectPath l \<mapsto>
        old @ [LF] @ formatLearning date l)\<rparr>)"
  using assms by (simp add: appendLearning_def access_def appendFile_def Let_def)

lemma appendLearning_new:
  assumes "files fs (learningPath projectPath l) = None"
    and "learningPath projectPath l \<notin> unwritable fs"
  shows "appendLearning fs projectPath date l =
     (Inr (), fs\<lparr>files := (files fs)(learningPath projectPath l \<mapsto>
        serializeFrontmatter (seedMetadata l) @ [LF] @ ''# '' @ category l @ [LF]
        @ formatLearning date l)\<rparr>)"
  using assms by (simp add: appendLearning_def access_def writeFile_def Let_def)

text \<open>
  C8.  \<open>appendLearning\<close> writes to the file in the memory directory named by the
  sanitized category (lower case, each run of white space one hyphen, every character
  outside \<open>[a-z0-9-]\<close> removed, \<open>general\<close> when nothing is left).  When that file exists
  (and can be written), the new content is the old content, a line feed, and the formatted
  entry, which itself starts with a line feed.  When it does not exist, it is created with
  the seeded metadata (tags and relevantTo the sanitized category, importance 0.7), a
  heading with the original category, and the formatted entry; a second call for the same
  file then appends to what the first call created.
\<close>

theorem appendLearning_effect:
  "learningPath projectPath l
     = getMemoryDir projectPath @ ''/''
       @ (if sanitizeCategory (category l) = [] then ''general'' else sanitizeCategory (category l))
       @ ''.md''
   \<and> sanitizeCategory (category l)
       = filter (\<lambda>c. isLowerAlnum c \<or> c = CHR ''-'') (hyphenateSpaces (toLowerCase (category l)))
   \<and> (files fs (learningPath projectPath l) = Some old
        \<and> learningPath projectPath l \<notin> unwritable fs \<longrightarrow>
        appendLearning fs projectPath date l =
          (Inr (), fs\<lparr>files := (files fs)(learningPath projectPath l \<mapsto>
             old @ [LF] @ formatLearning date l)\<rparr>))
   \<and> (\<exists>rest. formatLearning date l = [LF] @ ''#'' @ rest)
   \<and> (files fs (learningPath projectPath l) = None
        \<and> learningPath projectPath l \<notin> unwritable fs \<longrightarrow>
        appendLearning fs projectPath date l =
          (Inr (), fs\<lparr>files := (files fs)(learningPath projectPath l \<mapsto>
             serializeFrontmatter (seedMetadata l) @ [LF] @ ''# '' @ category l @ [LF]
             @ formatLearning date l)\<rparr>)
        \<and> tags (seedMetadata l) = [categoryOrGeneral (category l)]
        \<and> relevantTo (seedMetadata l) = [categoryOrGeneral (category l)]
        \<and> importance (seedMetadata l) = Dec 7 1
        \<and> (learningPath projectPath l' = learningPath projectPath l \<longrightarrow>
             snd (appendLearning (snd (appendLearning fs projectPath date l)) projectPath date' l')
               = fs\<lparr>files := (files fs)(learningPath projectPath l \<mapsto>
                   (serializeFrontmatter (seedMetadata l) @ [LF] @ ''# '' @ category l @ [LF]
                    @ formatLearning date l)
                   @ [LF] @ formatLearning date' l')\<rparr>))"
proof (intro conjI impI)
  show "learningPath projectPath l
     = getMemoryDir projectPath @ ''/''
       @ (if sanitizeCategory (category l) = [] then ''general'' else sanitizeCategory (category l))
       @ ''.md''"
    by (simp add: learningPath_def pathJoin_def categoryOrGeneral_def)
  show "sanitizeCategory (category l)
       = filter (\<lambda>c. isLowerAlnum c \<or> c = CHR ''-'') (hyphenateSpaces (toLowerCase (category l)))"
    by (simp add: sanitizeCategory_def)
  show "\<exists>rest. formatLearning date l = [LF] @ ''#'' @ rest" by (rule formatLearning_blank)
  show "tags (seedMetadata l) = [categoryOrGeneral (category l)]"
    "relevantTo (seedMetadata l) = [categoryOrGeneral (category l)]"
    "importance (seedMetadata l) = Dec 7 1"
    by (simp_all add: seedMetadata_def)
next
  assume "files fs (learningPath projectPath l) = Some old
        \<and> learningPath projectPath l \<notin> unwritable fs"
  then show "appendLearning fs projectPath date l =
          (Inr (), fs\<lparr>files := (files fs)(learningPath projectPath l \<mapsto>
             old @ [LF] @ formatLearning date l)\<rparr>)"
    using appendLearning_existing by blast
next
  assume a: "files fs (learningPath projectPath l) = None
        \<and> learningPath projectPath l \<notin> unwritable fs"
  then show "appendLearning fs projectPath date l =
          (Inr (), fs\<lparr>files := (files fs)(learningPath projectPath l \<mapsto>
             serializeFrontmatter (seedMetadata l) @ [LF] @ ''# '' @ category l @ [LF]
             @ formatLearning date l)\<rparr>)"
    using appendLearning_new by blast
next
  assume a: "files fs (learningPath projectPath l) = None
        \<and> learningPath projectPath l \<notin> unwritable fs"
    and e: "learningPath projectPath l' = learningPath projectPath l"
  let ?p = "learningPath projectPath l"
  let ?c = "serializeFrontmatter (seedMetadata l) @ [LF] @ ''# '' @ category l @ [LF]
             @ formatLearning date l"
  let ?fs1 = "fs\<lparr>files := (files fs)(?p \<mapsto> ?c)\<rparr>"
  have 1: "snd (appendLearning fs projectPath date l) = ?fs1"
    using a appendLearning_new[of fs projectPath l date] by simp
  have "files ?fs1 (learningPath projectPath l') = Some ?c"
    "learningPath projectPath l' \<notin> unwritable ?fs1"
    using a e by simp_all
  from appendLearning_existing[OF this, of date']
  have "snd (appendLearning ?fs1 projectPath date' l')
      = ?fs1\<lparr>files := (files ?fs1)(learningPath projectPath l' \<mapsto> ?c @ [LF] @ formatLearning date' l')\<rparr>"
    by simp
  then show "snd (appendLearning (snd (appendLearning fs projectPath date l)) projectPath date' l')
               = fs\<lparr>files := (files fs)(learningPath projectPath l \<mapsto>
                   (serializeFrontmatter (seedMetadata l) @ [LF] @ ''# '' @ category l @ [LF]
                    @ formatLearning date l)
                   @ [LF] @ formatLearning date' l')\<rparr>"
    by (simp only: 1 e) simp
qed

theorem appendLearning_effect_witness:
  "learningPath ''/p''
      \<lparr>category = ''API Design'', ltype = Decision, lcontent = ''Use REST'',
       lcontext = Some ''public API'', why = None, rejected = None, tradeoffs = None,
       breaking = None\<rparr> = ''/p/.automaker/memory/api-design.md''
   \<and> files (snd (appendLearning \<lparr>files = Map.empty, unreadable = {}, unwritable = {}\<rparr> ''/p''
        ''2026-01-02''
        \<lparr>category = ''API Design'', ltype = Decision, lcontent = ''Use REST'',
         lcontext = Some ''public API'', why = None, rejected = None, tradeoffs = None,
         breaking = None\<rparr>)) ''/p/.automaker/memory/api-design.md''
     = Some ''---\<newline>tags: [api-design]\<newline>summary: API Design implementation decisions and patterns\<newline>relevantTo: [api-design]\<newline>importance: 0.7\<newline>relatedFiles: []\<newline>usageStats:\<newline>  loaded: 0\<newline>  referenced: 0\<newline>  successfulFeatures: 0\<newline>---\<newline># API Design\<newline>\<newline>### Use REST (2026-01-02)\<newline>- **Context:** public API''
   \<and> files (snd (appendLearning
        (snd (appendLearning \<lparr>files = Map.empty, unreadable = {}, unwritable = {}\<rparr> ''/p''
          ''2026-01-02''
          \<lparr>category = ''API Design'', ltype = Decision, lcontent = ''Use REST'',
           lcontext = Some ''public API'', why = None, rejected = None, tradeoffs = None,
           breaking = None\<rparr>))
        ''/p'' ''2026-01-03''
        \<lparr>category = ''api  design!'', ltype = Gotcha, lcontent = ''Paging'',
         lcontext = None, why = Some ''offsets drift'', rejected = None, tradeoffs = None,
         breaking = None\<rparr>)) ''/p/.automaker/memory/api-design.md''
     = Some ''---\<newline>tags: [api-design]\<newline>summary: API Design implementation decisions and patterns\<newline>relevantTo: [api-design]\<newline>importance: 0.7\<newline>relatedFiles: []\<newline>usageStats:\<newline>  loaded: 0\<newline>  referenced: 0\<newline>  successfulFeatures: 0\<newline>---\<newline># API Design\<newline>\<newline>### Use REST (2026-01-02)\<newline>- **Context:** public API\<newline>\<newline>#### [Gotcha] Paging (2026-01-03)\<newline>- **Root cause:** offsets drift''"
proof -
  let ?l = "\<lparr>category = ''API Design'', ltype = Decision, lcontent = ''Use REST'',
       lcontext = Some ''public API'', why = None, rejected = None, tradeoffs = None,
       breaking = None\<rparr>"
  let ?l' = "\<lparr>category = ''api  design!'', ltype = Gotcha, lcontent = ''Paging'',
         lcontext = None, why = Some ''offsets drift'', rejected = None, tradeoffs = None,
         breaking = None\<rparr>"
  let ?fs = "\<lparr>files = Map.empty, unreadable = {}, unwritable = {}\<rparr> :: fsys"
  let ?p = "''/p/.automaker/memory/api-design.md''"
  have p: "learningPath ''/p'' ?l = ?p" by code_simp
  have p': "learningPath ''/p'' ?l' = learningPath ''/p'' ?l" by code_simp
  have h: "files ?fs (learningPath ''/p'' ?l) = None \<and> learningPath ''/p'' ?l \<notin> unwritable ?fs"
    by simp
  have c1: "serializeFrontmatter (seedMetadata ?l) @ [LF] @ ''# '' @ category ?l @ [LF]
             @ formatLearning ''2026-01-02'' ?l
      = ''---\<newline>tags: [api-design]\<newline>summary: API Design implementation decisions and patterns\<newline>relevantTo: [api-design]\<newline>importance: 0.7\<newline>relatedFiles: []\<newline>usageStats:\<newline>  loaded: 0\<newline>  referenced: 0\<newline>  successfulFeatures: 0\<newline>---\<newline># API Design\<newline>\<newline>### Use REST (2026-01-02)\<newline>- **Context:** public API''"
    by code_simp
  have c2: "formatLearning ''2026-01-03'' ?l' = ''\<newline>#### [Gotcha] Paging (2026-01-03)\<newline>- **Root cause:** offsets drift''"
    by code_simp
  note t = appendLearning_effect[of "''/p''" ?l ?fs undefined "''2026-01-02''" ?l' "''2026-01-03''"]
  have 1: "snd (appendLearning ?fs ''/p'' ''2026-01-02'' ?l)
     = ?fs\<lparr>files := (files ?fs)(learningPath ''/p'' ?l \<mapsto>
             serializeFrontmatter (seedMetadata ?l) @ [LF] @ ''# '' @ category ?l @ [LF]
             @ formatLearning ''2026-01-02'' ?l)\<rparr>"
    using t h by simp
  have 2: "snd (appendLearning (snd (appendLearning ?fs ''/p'' ''2026-01-02'' ?l)) ''/p''
               ''2026-01-03'' ?l')
     = ?fs\<lparr>files := (files ?fs)(learningPath ''/p'' ?l \<mapsto>
             (serializeFrontmatter (seedMetadata ?l) @ [LF] @ ''# '' @ category ?l @ [LF]
             @ formatLearning ''2026-01-02'' ?l) @ [LF] @ formatLearning ''2026-01-03'' ?l')\<rparr>"
    using t h p' by blast
  have f1: "files (snd (appendLearning ?fs ''/p'' ''2026-01-02'' ?l)) ?p
      = Some ''---\<newline>tags: [api-design]\<newline>summary: API Design implementation decisions and patterns\<newline>relevantTo: [api-design]\<newline>importance: 0.7\<newline>relatedFiles: []\<newline>usageStats:\<newline>  loaded: 0\<newline>  referenced: 0\<newline>  successfulFeatures: 0\<newline>---\<newline># API Design\<newline>\<newline>### Use REST (2026-01-02)\<newline>- **Context:** public API''"
    unfolding 1 p c1 by simp
  have f2: "files (snd (appendLearning (snd (appendLearning ?fs ''/p'' ''2026-01-02'' ?l)) ''/p''
               ''2026-01-03'' ?l')) ?p
      = Some ''---\<newline>tags: [api-design]\<newline>summary: API Design implementation decisions and patterns\<newline>relevantTo: [api-design]\<newline>importance: 0.7\<newline>relatedFiles: []\<newline>usageStats:\<newline>  loaded: 0\<newline>  referenced: 0\<newline>  successfulFeatures: 0\<newline>---\<newline># API Design\<newline>\<newline>### Use REST (2026-01-02)\<newline>- **Context:** public API\<newline>\<newline>#### [Gotcha] Paging (2026-01-03)\<newline>- **Root cause:** offsets drift''"
    unfolding 2 p c1 c2 by simp
  show ?thesis
    by (intro conjI) (rule p, rule f1, rule f2)
qed

section \<open>Claims about selection\<close>

lemma setAdd_set: "set (setAdd x sel) = insert x (set sel)"
  by (auto simp: setAdd_def)

lemma setAdd_distinct: "distinct sel \<Longrightarrow> distinct (setAdd x sel)"
  by (simp add: setAdd_def)

lemma setAdd_length: "length (setAdd x sel) = (if x \<in> set sel then length sel else Suc (length sel))"
  by (simp add: setAdd_def)

lemma addImportant_mono: "set sel \<subseteq> set (addImportant n fs sel)"
proof (induction fs arbitrary: sel)
  case Nil
  then show ?case by simp
next
  case (Cons f fs)
  let ?sel = "if numLe (Dec 9 1) (importance (metadata f)) \<and> int (length sel) < n
              then setAdd (fileName f) sel else sel"
  have "set sel \<subseteq> set ?sel" by (auto simp: setAdd_set)
  also have "set ?sel \<subseteq> set (addImportant n fs ?sel)" by (rule Cons.IH)
  finally show ?case by simp
qed

lemma addScoring_mono: "set sel \<subseteq> set (addScoring n fs sel)"
proof (induction fs arbitrary: sel)
  case Nil
  then show ?case by simp
next
  case (Cons f fs)
  let ?sel = "if scorePositive (score f) \<and> int (length sel) < n
              then setAdd (fileName f) sel else sel"
  have "set sel \<subseteq> set ?sel" by (auto simp: setAdd_set)
  also have "set ?sel \<subseteq> set (addScoring n fs ?sel)" by (rule Cons.IH)
  finally show ?case by simp
qed

lemma addImportant_sub: "set (addImportant n fs sel) \<subseteq> set sel \<union> fileName ` set fs"
proof (induction fs arbitrary: sel)
  case Nil
  then show ?case by simp
next
  case (Cons f fs)
  let ?sel = "if numLe (Dec 9 1) (importance (metadata f)) \<and> int (length sel) < n
              then setAdd (fileName f) sel else sel"
  have 1: "set (addImportant n fs ?sel) \<subseteq> set ?sel \<union> fileName ` set fs" by (rule Cons.IH)
  have 2: "set ?sel \<subseteq> set sel \<union> {fileName f}" by (auto simp: setAdd_set)
  have 3: "addImportant n (f # fs) sel = addImportant n fs ?sel" by simp
  have "set (addImportant n fs ?sel) \<subseteq> set sel \<union> fileName ` set (f # fs)"
    using 1 2 by (simp only: list.set image_insert) blast
  then show ?case by (simp only: 3)
qed

lemma addScoring_sub: "set (addScoring n fs sel) \<subseteq> set sel \<union> fileName ` set fs"
proof (induction fs arbitrary: sel)
  case Nil
  then show ?case by simp
next
  case (Cons f fs)
  let ?sel = "if scorePositive (score f) \<and> int (length sel) < n
              then setAdd (fileName f) sel else sel"
  have 1: "set (addScoring n fs ?sel) \<subseteq> set ?sel \<union> fileName ` set fs" by (rule Cons.IH)
  have 2: "set ?sel \<subseteq> set sel \<union> {fileName f}" by (auto simp: setAdd_set)
  have 3: "addScoring n (f # fs) sel = addScoring n fs ?sel" by simp
  have "set (addScoring n fs ?sel) \<subseteq> set sel \<union> fileName ` set (f # fs)"
    using 1 2 by (simp only: list.set image_insert) blast
  then show ?case by (simp only: 3)
qed

lemma addImportant_distinct: "distinct sel \<Longrightarrow> distinct (addImportant n fs sel)"
  by (induction fs arbitrary: sel) (simp_all add: setAdd_distinct)

lemma addScoring_distinct: "distinct sel \<Longrightarrow> distinct (addScoring n fs sel)"
  by (induction fs arbitrary: sel) (simp_all add: setAdd_distinct)

lemma addImportant_bound:
  "int (length sel) \<le> n \<Longrightarrow> int (length (addImportant n fs sel)) \<le> n"
proof (induction fs arbitrary: sel)
  case Nil
  then show ?case by simp
next
  case (Cons f fs)
  show ?case
  proof (cases "numLe (Dec 9 1) (importance (metadata f)) \<and> int (length sel) < n")
    case True
    then have "int (length (setAdd (fileName f) sel)) \<le> n" by (simp add: setAdd_length)
    from Cons.IH[OF this] show ?thesis using True by simp
  next
    case False
    then show ?thesis using Cons by auto
  qed
qed

lemma addScoring_bound:
  "int (length sel) \<le> n \<Longrightarrow> int (length (addScoring n fs sel)) \<le> n"
proof (induction fs arbitrary: sel)
  case Nil
  then show ?case by simp
next
  case (Cons f fs)
  show ?case
  proof (cases "scorePositive (score f) \<and> int (length sel) < n")
    case True
    then have "int (length (setAdd (fileName f) sel)) \<le> n" by (simp add: setAdd_length)
    from Cons.IH[OF this] show ?thesis using True by simp
  next
    case False
    then show ?thesis using Cons by auto
  qed
qed

lemma addImportant_full: "n \<le> int (length sel) \<Longrightarrow> addImportant n fs sel = sel"
  by (induction fs arbitrary: sel) auto

lemma addScoring_full: "n \<le> int (length sel) \<Longrightarrow> addScoring n fs sel = sel"
  by (induction fs arbitrary: sel) auto

text \<open>When every file is of high importance, the second step fills the selection up to the
  cap or takes every name.\<close>

lemma addImportant_fills:
  assumes "\<forall>f \<in> set fs. numLe (Dec 9 1) (importance (metadata f))"
    and "distinct (map fileName fs)" and "distinct sel" and "int (length sel) \<le> n"
  shows "int (length (addImportant n fs sel))
     = min n (int (length sel) + int (card (fileName ` set fs - set sel)))"
  using assms
proof (induction fs arbitrary: sel)
  case Nil
  then show ?case by simp
next
  case (Cons f fs)
  have nf: "fileName f \<notin> fileName ` set fs" using Cons.prems(2) by auto
  show ?case
  proof (cases "int (length sel) < n")
    case False
    then have "addImportant n (f # fs) sel = sel" using addImportant_full[of n sel "f # fs"] by simp
    then show ?thesis using False Cons.prems(4) by simp
  next
    case True
    let ?sel = "setAdd (fileName f) sel"
    have i: "numLe (Dec 9 1) (importance (metadata f))" using Cons.prems(1) by simp
    have step: "addImportant n (f # fs) sel = addImportant n fs ?sel" using True i by simp
    have b: "int (length ?sel) \<le> n" using True by (simp add: setAdd_length)
    have d: "distinct ?sel" using Cons.prems(3) by (rule setAdd_distinct)
    have ih: "int (length (addImportant n fs ?sel))
       = min n (int (length ?sel) + int (card (fileName ` set fs - set ?sel)))"
      using Cons.IH[of ?sel] Cons.prems(1,2) d b by simp
    have fin: "finite (fileName ` set fs - set sel)" by simp
    have "int (length ?sel) + int (card (fileName ` set fs - set ?sel))
        = int (length sel) + int (card (fileName ` set (f # fs) - set sel))"
    proof (cases "fileName f \<in> set sel")
      case True
      then have "fileName ` set (f # fs) - set sel = fileName ` set fs - set sel" by auto
      then show ?thesis using True by (simp add: setAdd_def)
    next
      case False
      have "fileName ` set (f # fs) - set sel = insert (fileName f) (fileName ` set fs - set sel)"
        using False by auto
      moreover have "fileName ` set fs - set ?sel = fileName ` set fs - set sel"
        using nf by (auto simp: setAdd_set)
      moreover have "fileName f \<notin> fileName ` set fs - set sel" using nf by simp
      ultimately show ?thesis using False fin by (simp add: setAdd_length)
    qed
    then show ?thesis using step ih by simp
  qed
qed

lemma selectFiles_cap:
  "0 < n \<Longrightarrow> int (length (selectFiles n terms sf)) \<le> n"
proof -
  assume n: "0 < n"
  let ?s0 = "if \<exists>f \<in> set sf. fileName f = ''gotchas.md'' then setAdd ''gotchas.md'' [] else []"
  have "int (length ?s0) \<le> n" using n by (simp add: setAdd_def)
  then have "int (length (addImportant n sf ?s0)) \<le> n" by (rule addImportant_bound)
  then have "int (length (addScoring n sf (addImportant n sf ?s0))) \<le> n"
    "int (length (addImportant n sf ?s0)) \<le> n"
    by (simp_all add: addScoring_bound)
  then show ?thesis using n by (simp add: selectFiles_def Let_def)
qed

lemma selectFiles_gotchas:
  assumes "0 < n" "\<exists>f \<in> set sf. fileName f = ''gotchas.md''"
  shows "''gotchas.md'' \<in> set (selectFiles n terms sf)"
proof -
  let ?s0 = "setAdd ''gotchas.md'' []"
  have "''gotchas.md'' \<in> set ?s0" by (simp add: setAdd_def)
  then have 1: "''gotchas.md'' \<in> set (addImportant n sf ?s0)" using addImportant_mono by blast
  then have 2: "''gotchas.md'' \<in> set (addScoring n sf (addImportant n sf ?s0))"
    using addScoring_mono by blast
  show ?thesis using assms 1 2 by (simp add: selectFiles_def Let_def)
qed

lemma selectFiles_distinct: "distinct (selectFiles n terms sf)"
  by (simp add: selectFiles_def Let_def addScoring_distinct addImportant_distinct setAdd_def)

lemma selectFiles_names: "set (selectFiles n terms sf) \<subseteq> fileName ` set sf"
proof -
  let ?s0 = "if \<exists>f \<in> set sf. fileName f = ''gotchas.md'' then setAdd ''gotchas.md'' [] else []"
  have 0: "set ?s0 \<subseteq> fileName ` set sf" by (force simp: setAdd_def)
  have 1: "set (addImportant n sf ?s0) \<subseteq> fileName ` set sf"
    using addImportant_sub[of n sf ?s0] 0 by blast
  have 2: "set (addScoring n sf (addImportant n sf ?s0)) \<subseteq> fileName ` set sf"
    using addScoring_sub[of n sf "addImportant n sf ?s0"] 1 by blast
  show ?thesis
  proof (cases "0 < n")
    case False
    then show ?thesis by (simp add: selectFiles_def)
  next
    case n: True
    show ?thesis
    proof (cases "length terms > 0")
      case True
      with n have "selectFiles n terms sf = addScoring n sf (addImportant n sf ?s0)"
        by (simp only: selectFiles_def Let_def if_True)
      then show ?thesis using 2 by (simp only:)
    next
      case False
      with n have "selectFiles n terms sf = addImportant n sf ?s0"
        by (simp only: selectFiles_def Let_def if_True if_False)
      then show ?thesis using 1 by (simp only:)
    qed
  qed
qed

lemma selectFiles_only_gotchas:
  assumes "\<exists>f \<in> set sf. fileName f = ''gotchas.md''"
  shows "selectFiles 1 terms sf = [''gotchas.md'']"
proof -
  have "addImportant 1 sf [''gotchas.md''] = [''gotchas.md'']" by (rule addImportant_full) simp
  moreover have "addScoring 1 sf [''gotchas.md''] = [''gotchas.md'']" by (rule addScoring_full) simp
  ultimately show ?thesis using assms by (simp add: selectFiles_def Let_def setAdd_def)
qed

lemma selectFiles_all_important:
  assumes "\<forall>f \<in> set sf. numLe (Dec 9 1) (importance (metadata f))"
    and "distinct (map fileName sf)" and "0 < n" and "n \<le> int (length sf)"
  shows "int (length (selectFiles n terms sf)) = n"
proof -
  let ?s0 = "if \<exists>f \<in> set sf. fileName f = ''gotchas.md'' then setAdd ''gotchas.md'' [] else []"
  have d0: "distinct ?s0" by (simp add: setAdd_def)
  have b0: "int (length ?s0) \<le> n" using assms(3) by (simp add: setAdd_def)
  have sub: "set ?s0 \<subseteq> fileName ` set sf" by (force simp: setAdd_def)
  have "card (fileName ` set sf - set ?s0) = card (fileName ` set sf) - card (set ?s0)"
    using sub by (intro card_Diff_subset) simp_all
  moreover have "card (set ?s0) \<le> card (fileName ` set sf)"
    using sub by (intro card_mono) simp_all
  ultimately have "card (set ?s0) + card (fileName ` set sf - set ?s0) = card (fileName ` set sf)"
    by linarith
  moreover have "card (set ?s0) = length ?s0" using d0 by (rule distinct_card)
  moreover have "card (fileName ` set sf) = length sf"
    using assms(2) by (metis distinct_card length_map set_map)
  ultimately have "int (length ?s0) + int (card (fileName ` set sf - set ?s0)) = int (length sf)"
    by linarith
  then have "int (length (addImportant n sf ?s0)) = n"
    using addImportant_fills[OF assms(1,2) d0 b0] assms(4) by simp
  moreover from this have "addScoring n sf (addImportant n sf ?s0) = addImportant n sf ?s0"
    by (intro addScoring_full) simp
  ultimately show ?thesis using assms(3) by (simp add: selectFiles_def Let_def)
qed

lemma set_insertByScore: "set (insertByScore x ys) = insert x (set ys)"
  by (induction ys) auto

lemma set_sortByScore: "set (sortByScore xs) = set xs"
  by (induction xs) (simp_all add: sortByScore_def set_insertByScore)

lemma length_insertByScore: "length (insertByScore x ys) = Suc (length ys)"
  by (induction ys) auto

lemma length_sortByScore: "length (sortByScore xs) = length xs"
  by (induction xs) (simp_all add: sortByScore_def length_insertByScore)

lemma scoreFiles_member:
  assumes "name \<in> set names" "readFile fs (pathJoin dir name) = Inr raw"
    and "trim (snd (parseFrontmatter raw)) \<noteq> []"
  shows "\<exists>f \<in> set (scoreFiles fs dir terms names). fileName f = name"
  using assms(1)
proof (induction names)
  case Nil
  then show ?case by simp
next
  case (Cons a names)
  show ?case
  proof (cases "a = name")
    case True
    then show ?thesis using assms(2,3) by (simp add: split_beta)
  next
    case False
    then have "\<exists>f \<in> set (scoreFiles fs dir terms names). fileName f = name"
      using Cons by simp
    then show ?thesis by (auto simp: split_beta split: sum.splits)
  qed
qed

lemma filter_selected_length:
  assumes "distinct (map fileName sf)" "distinct sel" "set sel \<subseteq> fileName ` set sf"
  shows "length (filter (\<lambda>f. fileName f \<in> set sel) sf) = length sel"
proof -
  let ?xs = "map fileName (filter (\<lambda>f. fileName f \<in> set sel) sf)"
  have d: "distinct ?xs" using assms(1) by (rule distinct_map_filter)
  have "set ?xs \<subseteq> set sel" by auto
  moreover have "set sel \<subseteq> set ?xs"
  proof
    fix x assume x: "x \<in> set sel"
    then obtain f where "f \<in> set sf" "fileName f = x" using assms(3) by blast
    then show "x \<in> set ?xs" using x by force
  qed
  ultimately have e: "set ?xs = set sel" by (rule subset_antisym)
  have "length ?xs = card (set ?xs)" using d by (simp only: distinct_card)
  also have "\<dots> = card (set sel)" by (simp only: e)
  also have "\<dots> = length sel" using assms(2) by (rule distinct_card)
  finally show ?thesis by simp
qed

text \<open>
  C3.  The names selected by \<open>loadContextFiles\<close> are \<open>selectFiles\<close> applied to the sorted
  list of scored candidates.  For every such list: with \<open>maxMemoryFiles\<close> at most 0 nothing
  is selected; with \<open>maxMemoryFiles\<close> positive the selection has at most \<open>maxMemoryFiles\<close>
  names and contains \<open>gotchas.md\<close> whenever a candidate has that name, which is the case
  when the directory lists it and its body is not empty after trimming; with
  \<open>maxMemoryFiles = 1\<close> and \<open>gotchas.md\<close> a candidate, exactly \<open>gotchas.md\<close> is selected,
  whatever the other candidates are; and when all candidates have importance at least 0.9
  and distinct names and there are at least \<open>maxMemoryFiles\<close> of them, exactly
  \<open>maxMemoryFiles\<close> are selected and handed back.
\<close>

theorem selection_policy:
  "selectedMemory fs projectPath taskTerms n entries
     = selectFiles n taskTerms
         (sortByScore (scoreFiles fs (getMemoryDir projectPath) taskTerms
            (filter isCandidateName entries)))
   \<and> (n \<le> 0 \<longrightarrow> selectFiles n taskTerms sf = [])
   \<and> (0 < n \<longrightarrow> int (length (selectFiles n taskTerms sf)) \<le> n
         \<and> ((\<exists>f \<in> set sf. fileName f = ''gotchas.md'')
              \<longrightarrow> ''gotchas.md'' \<in> set (selectFiles n taskTerms sf))
         \<and> (''gotchas.md'' \<in> set entries
              \<and> readFile fs (pathJoin (getMemoryDir projectPath) ''gotchas.md'') = Inr raw
              \<and> trim (snd (parseFrontmatter raw)) \<noteq> []
              \<longrightarrow> ''gotchas.md'' \<in> set (selectedMemory fs projectPath taskTerms n entries)))
   \<and> ((\<exists>f \<in> set sf. fileName f = ''gotchas.md'')
         \<longrightarrow> selectFiles 1 taskTerms sf = [''gotchas.md''])
   \<and> ((\<forall>f \<in> set sf. numLe (Dec 9 1) (importance (metadata f)))
         \<and> distinct (map fileName sf) \<and> 0 < n \<and> n \<le> int (length sf)
         \<longrightarrow> int (length (selectFiles n taskTerms sf)) = n
           \<and> int (length (filter (\<lambda>f. fileName f \<in> set (selectFiles n taskTerms sf)) sf)) = n)"
proof (intro conjI impI)
  show "selectedMemory fs projectPath taskTerms n entries
     = selectFiles n taskTerms
         (sortByScore (scoreFiles fs (getMemoryDir projectPath) taskTerms
            (filter isCandidateName entries)))"
    by (simp add: selectedMemory_def)
next
  assume "n \<le> 0"
  then show "selectFiles n taskTerms sf = []" by (simp add: selectFiles_def)
next
  assume "0 < n"
  then show "int (length (selectFiles n taskTerms sf)) \<le> n" by (rule selectFiles_cap)
next
  assume "0 < n" "\<exists>f \<in> set sf. fileName f = ''gotchas.md''"
  then show "''gotchas.md'' \<in> set (selectFiles n taskTerms sf)" by (rule selectFiles_gotchas)
next
  assume n: "0 < n"
    and g: "''gotchas.md'' \<in> set entries
              \<and> readFile fs (pathJoin (getMemoryDir projectPath) ''gotchas.md'') = Inr raw
              \<and> trim (snd (parseFrontmatter raw)) \<noteq> []"
  have c: "isCandidateName ''gotchas.md''" by code_simp
  let ?names = "filter isCandidateName entries"
  have "''gotchas.md'' \<in> set ?names" using g c by simp
  moreover from g have "readFile fs (pathJoin (getMemoryDir projectPath) ''gotchas.md'') = Inr raw"
    and "trim (snd (parseFrontmatter raw)) \<noteq> []" by simp_all
  ultimately have "\<exists>f \<in> set (scoreFiles fs (getMemoryDir projectPath) taskTerms ?names).
      fileName f = ''gotchas.md''"
    by (rule scoreFiles_member)
  then have "\<exists>f \<in> set (sortByScore (scoreFiles fs (getMemoryDir projectPath) taskTerms ?names)).
      fileName f = ''gotchas.md''"
    by (simp only: set_sortByScore)
  from selectFiles_gotchas[OF n this]
  show "''gotchas.md'' \<in> set (selectedMemory fs projectPath taskTerms n entries)"
    by (simp add: selectedMemory_def)
next
  assume "\<exists>f \<in> set sf. fileName f = ''gotchas.md''"
  then show "selectFiles 1 taskTerms sf = [''gotchas.md'']" by (rule selectFiles_only_gotchas)
next
  assume a: "(\<forall>f \<in> set sf. numLe (Dec 9 1) (importance (metadata f)))
         \<and> distinct (map fileName sf) \<and> 0 < n \<and> n \<le> int (length sf)"
  from a have a1: "\<forall>f \<in> set sf. numLe (Dec 9 1) (importance (metadata f))"
    and a2: "distinct (map fileName sf)" and a3: "0 < n" and a4: "n \<le> int (length sf)"
    by simp_all
  show l: "int (length (selectFiles n taskTerms sf)) = n"
    using a1 a2 a3 a4 by (rule selectFiles_all_important)
  have "length (filter (\<lambda>f. fileName f \<in> set (selectFiles n taskTerms sf)) sf)
      = length (selectFiles n taskTerms sf)"
    using a2 selectFiles_distinct selectFiles_names by (rule filter_selected_length)
  then show "int (length (filter (\<lambda>f. fileName f \<in> set (selectFiles n taskTerms sf)) sf)) = n"
    using l by simp
qed

theorem selection_policy_witness:
  "selectFiles 0 [''auth'']
      [\<lparr>fileName = ''gotchas.md'', filePath = ''/m/gotchas.md'', body = ''# Gotchas'',
        metadata = createDefaultMetadata\<lparr>importance := Dec 9 1\<rparr>, score = Score 0\<rparr>] = []
   \<and> selectFiles 1 [''auth'']
      [\<lparr>fileName = ''a.md'', filePath = ''/m/a.md'', body = ''A'',
        metadata = createDefaultMetadata, score = Score 0\<rparr>,
       \<lparr>fileName = ''b.md'', filePath = ''/m/b.md'', body = ''B'',
        metadata = createDefaultMetadata, score = Score 0\<rparr>,
       \<lparr>fileName = ''gotchas.md'', filePath = ''/m/gotchas.md'', body = ''# Gotchas'',
        metadata = createDefaultMetadata\<lparr>importance := Dec 9 1\<rparr>, score = Score 0\<rparr>,
       \<lparr>fileName = ''c.md'', filePath = ''/m/c.md'', body = ''C'',
        metadata = createDefaultMetadata, score = Score 0\<rparr>,
       \<lparr>fileName = ''d.md'', filePath = ''/m/d.md'', body = ''D'',
        metadata = createDefaultMetadata, score = Score 0\<rparr>] = [''gotchas.md'']
   \<and> int (length (selectFiles 3 []
        (map (\<lambda>nm. \<lparr>fileName = nm, filePath = pathJoin ''/m'' nm, body = ''text'',
                     metadata = createDefaultMetadata\<lparr>importance := Dec 95 2\<rparr>,
                     score = Score (95 / 100)\<rparr>)
          [''a.md'', ''b.md'', ''c.md'', ''d.md'', ''e.md'', ''f.md'', ''g.md'', ''h.md'',
           ''i.md'', ''j.md'']))) = 3
   \<and> ''gotchas.md'' \<in> set (selectedMemory
        \<lparr>files = [''/p/.automaker/memory/gotchas.md'' \<mapsto> ''# Gotchas\<newline>- mind the gap''],
         unreadable = {}, unwritable = {}\<rparr>
        ''/p'' [''auth''] 2 [''_index.md'', ''gotchas.md'', ''auth.md''])"
proof -
  let ?fs = "\<lparr>files = [''/p/.automaker/memory/gotchas.md'' \<mapsto> ''# Gotchas\<newline>- mind the gap''],
         unreadable = {}, unwritable = {}\<rparr>"
  have k: "(0::int) < 2" by simp
  have r: "''gotchas.md'' \<in> set [''_index.md'', ''gotchas.md'', ''auth.md'']
      \<and> readFile ?fs (pathJoin (getMemoryDir ''/p'') ''gotchas.md'') = Inr ''# Gotchas\<newline>- mind the gap''
      \<and> trim (snd (parseFrontmatter ''# Gotchas\<newline>- mind the gap'')) \<noteq> []"
  proof (intro conjI)
    show "''gotchas.md'' \<in> set [''_index.md'', ''gotchas.md'', ''auth.md'']" by simp
    show "readFile ?fs (pathJoin (getMemoryDir ''/p'') ''gotchas.md'') = Inr ''# Gotchas\<newline>- mind the gap''"
      by (simp add: readFile_def getMemoryDir_def pathJoin_def)
    show "trim (snd (parseFrontmatter ''# Gotchas\<newline>- mind the gap'')) \<noteq> []"
      by code_simp
  qed
  have 4: "''gotchas.md'' \<in> set (selectedMemory ?fs ''/p'' [''auth''] 2
       [''_index.md'', ''gotchas.md'', ''auth.md''])"
    by (rule mp[OF conjunct2[OF conjunct2[OF mp[OF selection_policy[THEN conjunct2, THEN conjunct2,
          THEN conjunct1] k]]] r])
  let ?g = "\<lparr>fileName = ''gotchas.md'', filePath = ''/m/gotchas.md'', body = ''# Gotchas'',
        metadata = createDefaultMetadata\<lparr>importance := Dec 9 1\<rparr>, score = Score 0\<rparr>"
  let ?five = "[\<lparr>fileName = ''a.md'', filePath = ''/m/a.md'', body = ''A'',
        metadata = createDefaultMetadata, score = Score 0\<rparr>,
       \<lparr>fileName = ''b.md'', filePath = ''/m/b.md'', body = ''B'',
        metadata = createDefaultMetadata, score = Score 0\<rparr>,
       ?g,
       \<lparr>fileName = ''c.md'', filePath = ''/m/c.md'', body = ''C'',
        metadata = createDefaultMetadata, score = Score 0\<rparr>,
       \<lparr>fileName = ''d.md'', filePath = ''/m/d.md'', body = ''D'',
        metadata = createDefaultMetadata, score = Score 0\<rparr>]"
  let ?ten = "map (\<lambda>nm. \<lparr>fileName = nm, filePath = pathJoin ''/m'' nm, body = ''text'',
                     metadata = createDefaultMetadata\<lparr>importance := Dec 95 2\<rparr>,
                     score = Score (95 / 100)\<rparr>)
          [''a.md'', ''b.md'', ''c.md'', ''d.md'', ''e.md'', ''f.md'', ''g.md'', ''h.md'',
           ''i.md'', ''j.md'']"
  have z: "(0::int) \<le> 0" by simp
  have z: "(0::int) \<le> 0" by simp
  have 1: "selectFiles 0 [''auth''] [?g] = []"
    by (rule mp[OF selection_policy[THEN conjunct2, THEN conjunct1] z])
  have g: "\<exists>f \<in> set ?five. fileName f = ''gotchas.md''" by simp
  have 2: "selectFiles 1 [''auth''] ?five = [''gotchas.md'']"
    by (rule mp[OF selection_policy[THEN conjunct2, THEN conjunct2, THEN conjunct2,
          THEN conjunct1] g])
  have h: "(\<forall>f \<in> set ?ten. numLe (Dec 9 1) (importance (metadata f)))
         \<and> distinct (map fileName ?ten) \<and> (0::int) < 3 \<and> 3 \<le> int (length ?ten)"
    by simp
  have 3: "int (length (selectFiles 3 [] ?ten)) = 3"
    by (rule conjunct1[OF mp[OF selection_policy[THEN conjunct2, THEN conjunct2,
          THEN conjunct2, THEN conjunct2] h]])
  show ?thesis by (intro conjI) (rule 1, rule 2, rule 3, rule 4)
qed

section \<open>Claims about the relevance score\<close>

lemma countMatches_alt:
  "countMatches coll taskTerms
     = length (filter (\<lambda>c. \<exists>t \<in> set taskTerms. toLowerCase c = toLowerCase t) coll)"
  by (simp only: countMatches_def set_map image_iff)

lemma image_filter_Int: "f ` {c \<in> C. f c \<in> f ` T} = f ` T \<inter> f ` C"
proof (rule set_eqI)
  fix x
  show "x \<in> f ` {c \<in> C. f c \<in> f ` T} \<longleftrightarrow> x \<in> f ` T \<inter> f ` C"
  proof
    assume "x \<in> f ` {c \<in> C. f c \<in> f ` T}"
    then obtain c where "c \<in> C" "f c \<in> f ` T" "x = f c" by blast
    then show "x \<in> f ` T \<inter> f ` C" by simp
  next
    assume "x \<in> f ` T \<inter> f ` C"
    then have t: "x \<in> f ` T" and "x \<in> f ` C" by simp_all
    then obtain c where c: "c \<in> C" "x = f c" by blast
    then have "c \<in> {c \<in> C. f c \<in> f ` T}" using t by simp
    then show "x \<in> f ` {c \<in> C. f c \<in> f ` T}" using c(2) by (rule image_eqI[rotated])
  qed
qed

lemma specMatchCount_card:
  "specMatchCount taskTerms coll
     = card (toLowerCase ` set taskTerms \<inter> toLowerCase ` set coll)"
proof -
  have "specMatchCount taskTerms coll
      = card (set (filter (\<lambda>t. t \<in> set (map toLowerCase coll)) (map toLowerCase taskTerms)))"
    by (simp only: specMatchCount_def length_remdups_card_conv)
  also have "set (filter (\<lambda>t. t \<in> set (map toLowerCase coll)) (map toLowerCase taskTerms))
      = {t \<in> toLowerCase ` set taskTerms. t \<in> toLowerCase ` set coll}"
    by (simp only: set_map set_filter)
  also have "\<dots> = toLowerCase ` set taskTerms \<inter> toLowerCase ` set coll"
    by (simp only: Int_def)
  finally show ?thesis .
qed

lemma countMatches_distinct:
  assumes "distinct (map toLowerCase coll)"
  shows "countMatches coll taskTerms = specMatchCount taskTerms coll"
proof -
  let ?L = "set (map toLowerCase taskTerms)"
  let ?xs = "map toLowerCase (filter (\<lambda>c. toLowerCase c \<in> ?L) coll)"
  have d: "distinct ?xs" using assms by (rule distinct_map_filter)
  have e: "set ?xs = toLowerCase ` set taskTerms \<inter> toLowerCase ` set coll"
    by (simp only: set_map set_filter image_filter_Int)
  have "countMatches coll taskTerms = length ?xs" by (simp only: countMatches_def length_map)
  also have "\<dots> = card (set ?xs)" using d by (simp only: distinct_card)
  also have "\<dots> = specMatchCount taskTerms coll" by (simp only: e specMatchCount_card)
  finally show ?thesis .
qed

text \<open>
  C4 (amended).  With task terms, the score of a candidate is
  \<open>(tagMatches * 3 + relevantToMatches * 2 + summaryMatches * 1 + categoryMatches * 4)
  * importance * usageScore\<close>, where each match count is the number of entries of the
  respective collection of the file (tags, relevantTo, the terms of the summary, the
  pieces of the file name split at hyphens and underscores that are longer than 2
  characters), repetitions included, that equal some task term without regard to case.
  Without task terms the score is the importance.  When no collection holds two entries
  that are equal up to case, each count is the number of task terms that occur in the
  collection, and the score is the one the specification describes.
\<close>

theorem relevanceScore_formula:
  "(taskTerms \<noteq> [] \<longrightarrow>
      relevanceScore taskTerms name md
        = scoreMul
            (scoreMul
               (Score (of_nat (countMatches (tags md) taskTerms * 3
                  + countMatches (relevantTo md) taskTerms * 2
                  + countMatches (extractTerms (summary md)) taskTerms * 1
                  + countMatches (categoryTerms name) taskTerms * 4)))
               (numScore (importance md)))
            (Score (calculateUsageScore (usageStats md))))
   \<and> (taskTerms = [] \<longrightarrow> relevanceScore taskTerms name md = numScore (importance md))
   \<and> countMatches coll taskTerms
        = length (filter (\<lambda>c. \<exists>t \<in> set taskTerms. toLowerCase c = toLowerCase t) coll)
   \<and> (distinct (map toLowerCase coll) \<longrightarrow>
        countMatches coll taskTerms = specMatchCount taskTerms coll)
   \<and> categoryTerms name
        = filter (\<lambda>t. length t > 2)
            (splitOn (\<lambda>c. c = CHR ''-'' \<or> c = CHR ''_'') (replaceFirst ''.md'' [] name))
   \<and> ((\<forall>c \<in> {tags md, relevantTo md, extractTerms (summary md), categoryTerms name}.
          distinct (map toLowerCase c))
        \<longrightarrow> relevanceScore taskTerms name md = specRelevanceScore taskTerms name md)"
proof (intro conjI impI)
  assume "taskTerms \<noteq> []"
  then show "relevanceScore taskTerms name md
        = scoreMul
            (scoreMul
               (Score (of_nat (countMatches (tags md) taskTerms * 3
                  + countMatches (relevantTo md) taskTerms * 2
                  + countMatches (extractTerms (summary md)) taskTerms * 1
                  + countMatches (categoryTerms name) taskTerms * 4)))
               (numScore (importance md)))
            (Score (calculateUsageScore (usageStats md)))"
    by (simp add: relevanceScore_def Let_def)
next
  assume "taskTerms = []"
  then show "relevanceScore taskTerms name md = numScore (importance md)"
    by (simp add: relevanceScore_def)
next
  show "countMatches coll taskTerms
        = length (filter (\<lambda>c. \<exists>t \<in> set taskTerms. toLowerCase c = toLowerCase t) coll)"
    by (rule countMatches_alt)
next
  assume "distinct (map toLowerCase coll)"
  then show "countMatches coll taskTerms = specMatchCount taskTerms coll"
    by (rule countMatches_distinct)
next
  show "categoryTerms name
        = filter (\<lambda>t. length t > 2)
            (splitOn (\<lambda>c. c = CHR ''-'' \<or> c = CHR ''_'') (replaceFirst ''.md'' [] name))"
    by (simp add: categoryTerms_def)
next
  assume "\<forall>c \<in> {tags md, relevantTo md, extractTerms (summary md), categoryTerms name}.
          distinct (map toLowerCase c)"
  then have "countMatches (tags md) taskTerms = specMatchCount taskTerms (tags md)"
    "countMatches (relevantTo md) taskTerms = specMatchCount taskTerms (relevantTo md)"
    "countMatches (extractTerms (summary md)) taskTerms
       = specMatchCount taskTerms (extractTerms (summary md))"
    "countMatches (categoryTerms name) taskTerms = specMatchCount taskTerms (categoryTerms name)"
    by (simp_all add: countMatches_distinct)
  then show "relevanceScore taskTerms name md = specRelevanceScore taskTerms name md"
    by (simp add: relevanceScore_def specRelevanceScore_def Let_def)
qed

theorem relevanceScore_witness:
  "relevanceScore [''jwt'', ''refresh'', ''endpoint''] ''auth-decisions.md''
      (createDefaultMetadata\<lparr>tags := [''auth'', ''jwt''], summary := ''JWT auth patterns''\<rparr>)
     = Score (2)
   \<and> relevanceScore [] ''auth-decisions.md''
      (createDefaultMetadata\<lparr>tags := [''auth'', ''jwt''], summary := ''JWT auth patterns''\<rparr>)
     = Score (1 / 2)
   \<and> countMatches [''auth'', ''jwt''] [''jwt'', ''refresh'', ''endpoint'']
     = specMatchCount [''jwt'', ''refresh'', ''endpoint''] [''auth'', ''jwt'']"
proof -
  let ?md = "createDefaultMetadata\<lparr>tags := [''auth'', ''jwt''], summary := ''JWT auth patterns''\<rparr>"
  let ?t = "[''jwt'', ''refresh'', ''endpoint'']"
  note t = relevanceScore_formula[of ?t "''auth-decisions.md''" ?md "[''auth'', ''jwt'']"]
  have n: "?t \<noteq> []" by simp
  have v: "scoreMul
            (scoreMul
               (Score (of_nat (countMatches (tags ?md) ?t * 3
                  + countMatches (relevantTo ?md) ?t * 2
                  + countMatches (extractTerms (summary ?md)) ?t * 1
                  + countMatches (categoryTerms ''auth-decisions.md'') ?t * 4)))
               (numScore (importance ?md)))
            (Score (calculateUsageScore (usageStats ?md))) = Score 2"
    by code_simp
  have 1: "relevanceScore ?t ''auth-decisions.md'' ?md = Score 2"
    using mp[OF t[THEN conjunct1] n] by (simp only: v)
  have i: "numScore (importance ?md) = Score (1 / 2)" by code_simp
  have 2: "relevanceScore [] ''auth-decisions.md'' ?md = Score (1 / 2)"
    by (rule trans[OF mp[OF relevanceScore_formula[THEN conjunct2, THEN conjunct1] refl] i])
  have d: "distinct (map toLowerCase [''auth'', ''jwt''])" by code_simp
  have 3: "countMatches [''auth'', ''jwt''] ?t = specMatchCount ?t [''auth'', ''jwt'']"
    by (rule mp[OF t[THEN conjunct2, THEN conjunct2, THEN conjunct2, THEN conjunct1] d])
  show ?thesis by (intro conjI) (rule 1, rule 2, rule 3)
qed

text \<open>
  C4 as stated fails when a word is repeated: for the task term \<open>auth\<close> and the summary
  \<open>auth tokens for auth\<close> the code counts two matches, the claim one.
\<close>

theorem relevanceScore_counterexample:
  "relevanceScore [''auth''] ''notes.md''
      (createDefaultMetadata\<lparr>summary := ''auth tokens for auth''\<rparr>) = Score 1
   \<and> specRelevanceScore [''auth''] ''notes.md''
      (createDefaultMetadata\<lparr>summary := ''auth tokens for auth''\<rparr>) = Score (1 / 2)"
  by code_simp

section \<open>Numbers and their decimal text\<close>

lemma digitVal_digitChar: "d < 10 \<Longrightarrow> digitVal (digitChar d) = d"
proof -
  assume "d < 10"
  then have "d \<in> {0, 1, 2, 3, 4, 5, 6, 7, 8, 9}" by auto
  then show ?thesis
    by (auto simp: digitVal_def digitChar_def)
qed

lemma isDigit_digitChar: "d < 10 \<Longrightarrow> isDigit (digitChar d)"
proof -
  assume "d < 10"
  then have "d \<in> {0, 1, 2, 3, 4, 5, 6, 7, 8, 9}" by auto
  then show ?thesis
    by (auto simp: isDigit_def digitChar_def)
qed

lemma natOfDigits_snoc: "natOfDigits (xs @ [c]) = 10 * natOfDigits xs + digitVal c"
  by (simp add: natOfDigits_def)

lemma natOfDigits_digitsOf: "natOfDigits (digitsOf n) = n"
proof (induction n rule: digitsOf.induct)
  case (1 n)
  show ?case
  proof (cases "n < 10")
    case True
    then show ?thesis
      by (simp add: digitsOf.simps[of n] natOfDigits_def digitVal_digitChar)
  next
    case False
    then have "natOfDigits (digitsOf (n div 10)) = n div 10" using 1 by simp
    then show ?thesis using False
      by (simp add: digitsOf.simps[of n] natOfDigits_snoc digitVal_digitChar)
  qed
qed

lemma digitsOf_all_digits: "list_all isDigit (digitsOf n)"
proof (induction n rule: digitsOf.induct)
  case (1 n)
  show ?case
  proof (cases "n < 10")
    case True
    then show ?thesis by (simp add: digitsOf.simps[of n] isDigit_digitChar)
  next
    case False
    then have "list_all isDigit (digitsOf (n div 10))" using 1 by simp
    then show ?thesis using False
      by (simp add: digitsOf.simps[of n] isDigit_digitChar)
  qed
qed

lemma digitsOf_nonempty: "digitsOf n \<noteq> []"
  by (subst digitsOf.simps) simp

lemma length_digitsOf: "n < 10 ^ j \<Longrightarrow> 0 < j \<Longrightarrow> length (digitsOf n) \<le> j"
proof (induction n arbitrary: j rule: digitsOf.induct)
  case (1 n)
  show ?case
  proof (cases "n < 10")
    case True
    then show ?thesis using 1(3) by (simp add: digitsOf.simps[of n])
  next
    case False
    obtain i where j: "j = Suc i" using 1(3) by (cases j) auto
    have "i \<noteq> 0" using False 1(2) j by (cases i) auto
    then have i: "0 < i" by simp
    have "n div 10 < 10 ^ i" using 1(2) j by (simp add: less_mult_imp_div_less mult.commute)
    then have "length (digitsOf (n div 10)) \<le> i" using 1(1)[OF False _ i] by simp
    then show ?thesis using False j by (simp add: digitsOf.simps[of n])
  qed
qed

lemma natOfDigits_zeros: "natOfDigits (replicate z (CHR ''0'') @ ds) = natOfDigits ds"
proof -
  have d0: "digitVal (CHR ''0'') = 0" by (simp add: digitVal_def)
  have "foldl (\<lambda>n c. 10 * n + digitVal c) 0 (replicate z (CHR ''0'')) = 0"
    by (induction z) (simp_all add: d0)
  then show ?thesis by (simp add: natOfDigits_def)
qed

lemma isDigit_0: "isDigit (CHR ''0'')" by (simp add: isDigit_def)
lemma not_isDigit_dot: "\<not> isDigit (CHR ''.'')" by (simp add: isDigit_def)

lemma takeWhile_all: "list_all P xs \<Longrightarrow> takeWhile P xs = xs"
  by (induction xs) auto

lemma dropWhile_all: "list_all P xs \<Longrightarrow> dropWhile P xs = []"
  by (induction xs) auto

lemma normDec_id: "k = 0 \<or> m mod 10 \<noteq> 0 \<Longrightarrow> normDec m k = Dec m k"
  by (cases k) auto

lemma parseFloat_numToString:
  assumes "plainImportance x"
  shows "parseFloat (numToString x) = x"
proof (cases x)
  case NaN
  then show ?thesis using assms by simp
next
  case (Dec m k)
  show ?thesis
  proof (cases k)
    case 0
    have "m = 0 \<or> m = 1" using assms Dec 0 by auto
    then show ?thesis using Dec 0
      by (auto simp: digitsOf.simps[of 0] digitsOf.simps[of 1] digitsOf.simps[of "Suc 0"]
          digitChar_def parseFloat_def isDigit_def natOfDigits_def digitVal_def)
  next
    case (Suc k')
    let ?ds = "digitsOf m"
    let ?z = "Suc k' - length ?ds"
    from assms Dec Suc have a: "m mod 10 \<noteq> 0" "m < 10 ^ Suc k'" "Suc k' < length ?ds + 6"
      by simp_all
    have len: "length ?ds \<le> Suc k'" using a(2) by (rule length_digitsOf) simp
    have z6: "?z < 6" using a(3) by arith
    have nl: "\<not> Suc k' < length ?ds" using len by arith
    have str: "numToString x = ''0.'' @ replicate ?z (CHR ''0'') @ ?ds"
      using Dec Suc nl z6 by (simp add: Let_def)
    have fpd: "list_all isDigit (replicate ?z (CHR ''0'') @ ?ds)"
      using digitsOf_all_digits[of m] by (auto simp: list_all_iff isDigit_0)
    have ip: "takeWhile isDigit (''0.'' @ replicate ?z (CHR ''0'') @ ?ds) = ''0''"
      by (simp add: isDigit_0 not_isDigit_dot)
    have dr: "dropWhile isDigit (''0.'' @ replicate ?z (CHR ''0'') @ ?ds)
        = CHR ''.'' # replicate ?z (CHR ''0'') @ ?ds"
      by (simp add: isDigit_0 not_isDigit_dot)
    have fp: "takeWhile isDigit (replicate ?z (CHR ''0'') @ ?ds) = replicate ?z (CHR ''0'') @ ?ds"
      using fpd by (rule takeWhile_all)
    have v: "natOfDigits (''0'' @ replicate ?z (CHR ''0'') @ ?ds) = m"
      using natOfDigits_zeros[of "Suc ?z" ?ds] by (simp add: natOfDigits_digitsOf)
    have l: "length (replicate ?z (CHR ''0'') @ ?ds) = Suc k'" using len by simp
    have "parseFloat (numToString x)
        = normDec (natOfDigits (''0'' @ replicate ?z (CHR ''0'') @ ?ds))
            (length (replicate ?z (CHR ''0'') @ ?ds))"
      unfolding str parseFloat_def ip dr by (simp add: fp Let_def)
    also have "\<dots> = normDec m (Suc k')" by (simp only: v l)
    also have "\<dots> = Dec m (Suc k')" using a(1) by simp
    finally show ?thesis using Dec Suc by simp
  qed
qed

lemma clamp_plain:
  assumes "plainImportance x"
  shows "mathMax (Dec 0 0) (mathMin (Dec 1 0) x) = x"
proof (cases x)
  case NaN
  then show ?thesis using assms by simp
next
  case (Dec m k)
  show ?thesis
  proof (cases k)
    case 0
    then show ?thesis using assms Dec by auto
  next
    case (Suc k')
    then have "m < 10 ^ k" using assms Dec by simp
    then show ?thesis using Dec by simp
  qed
qed

lemma numToString_chars:
  assumes "plainImportance x"
  shows "numToString x \<noteq> [] \<and> list_all (\<lambda>c. isDigit c \<or> c = CHR ''.'') (numToString x)"
proof (cases x)
  case NaN
  then show ?thesis using assms by simp
next
  case (Dec m k)
  have d: "list_all (\<lambda>c. isDigit c \<or> c = CHR ''.'') (digitsOf m)"
    using digitsOf_all_digits[of m] by (simp add: list_all_iff)
  show ?thesis
  proof (cases k)
    case 0
    have "m = 0 \<or> m = 1" using assms Dec 0 by auto
    then show ?thesis using Dec 0
      by (auto simp: digitsOf.simps[of 0] digitsOf.simps[of 1] digitsOf.simps[of "Suc 0"]
          digitChar_def isDigit_def)
  next
    case (Suc k')
    from assms Dec Suc have a: "m < 10 ^ Suc k'" "Suc k' < length (digitsOf m) + 6"
      by simp_all
    have len: "length (digitsOf m) \<le> Suc k'" using a(1) by (rule length_digitsOf) simp
    have z6: "Suc k' - length (digitsOf m) < 6" using a(2) by arith
    have nl: "\<not> Suc k' < length (digitsOf m)" using len by arith
    have str: "numToString x = ''0.'' @ replicate (Suc k' - length (digitsOf m)) (CHR ''0'') @ digitsOf m"
      using Dec Suc nl z6 by (simp add: Let_def)
    show ?thesis unfolding str using d by (auto simp: isDigit_0 list_all_iff)
  qed
qed

section \<open>Escaped strings and lists\<close>

lemma not_space_dquote: "\<not> isSpace dquote" by (simp add: isSpace_def)

lemma trim_quoted: "trim (dquote # t @ [dquote]) = dquote # t @ [dquote]"
  by (simp add: trim_def not_space_dquote)

lemma trim_spaces: "list_all isSpace w \<Longrightarrow> trim (w @ e) = trim e"
  by (induction w) (simp_all add: trim_def)

lemma concat_no_dquote:
  "dquote \<notin> set t \<Longrightarrow> concat (map (\<lambda>c. if c = dquote then [backslash, dquote] else [c]) t) = t"
  by (induction t) auto

lemma escape_cases:
  assumes "dquote \<notin> set t"
  shows "(escapeYamlString t = t \<and> trim t = t \<and> (\<forall>c \<in> set t. \<not> yamlSpecial c))
       \<or> escapeYamlString t = dquote # t @ [dquote]"
  using assms by (auto simp: escapeYamlString_def concat_no_dquote)

lemma filter_no_quote: "\<forall>c \<in> set t. \<not> isQuote c \<Longrightarrow> filter (\<lambda>c. \<not> isQuote c) t = t"
  by (induction t) auto

lemma isQuote_dquote: "isQuote dquote" by (simp add: isQuote_def)

lemma entry_decode:
  assumes "plainEntry t" "list_all isSpace w"
  shows "filter (\<lambda>c. \<not> isQuote c) (trim (w @ escapeYamlString t)) = t"
proof -
  have nq: "\<forall>c \<in> set t. \<not> isQuote c" using assms(1) by (simp add: plainEntry_def)
  then have nd: "dquote \<notin> set t" using isQuote_dquote by blast
  have f: "filter (\<lambda>c. \<not> isQuote c) t = t" using nq by (rule filter_no_quote)
  from escape_cases[OF nd] show ?thesis
  proof
    assume "escapeYamlString t = t \<and> trim t = t \<and> (\<forall>c \<in> set t. \<not> yamlSpecial c)"
    then show ?thesis using f by (simp add: trim_spaces[OF assms(2)])
  next
    assume "escapeYamlString t = dquote # t @ [dquote]"
    then show ?thesis using f
      by (simp add: trim_spaces[OF assms(2)] trim_quoted isQuote_dquote)
  qed
qed

lemma escape_set:
  assumes "dquote \<notin> set t"
  shows "set (escapeYamlString t) \<subseteq> insert dquote (set t)"
  using escape_cases[OF assms] by auto

lemma splitOn_none: "\<forall>c \<in> set u. \<not> p c \<Longrightarrow> splitOn p u = [u]"
  by (induction u) auto

lemma splitOn_sep:
  "\<forall>c \<in> set u. \<not> p c \<Longrightarrow> p c0 \<Longrightarrow> splitOn p (u @ c0 # v) = u # splitOn p v"
  by (induction u) auto

lemma isSpace_space: "isSpace (CHR '' '')" by (simp add: isSpace_def)

lemma parseList_join_aux:
  assumes "list_all plainEntry ts" "ts \<noteq> []" "list_all isSpace w" "CHR '','' \<notin> set w"
  shows "filter (\<lambda>t. length t > 0)
       (map (\<lambda>t. filter (\<lambda>c. \<not> isQuote c) (trim t))
          (splitOn (\<lambda>c. c = CHR '','') (w @ join '', '' (map escapeYamlString ts)))) = ts"
  using assms
proof (induction ts arbitrary: w)
  case Nil
  then show ?case by simp
next
  case (Cons t ts)
  have pt: "plainEntry t" using Cons.prems(1) by simp
  then have nd: "dquote \<notin> set t" and nc: "CHR '','' \<notin> set t" and ne: "t \<noteq> []"
    using isQuote_dquote by (auto simp: plainEntry_def)
  have ec: "CHR '','' \<notin> set (escapeYamlString t)" using escape_set[OF nd] nc by auto
  have wc: "\<forall>c \<in> set (w @ escapeYamlString t). \<not> c = CHR '',''"
    using ec Cons.prems(4) by auto
  have dec: "filter (\<lambda>c. \<not> isQuote c) (trim (w @ escapeYamlString t)) = t"
    using pt Cons.prems(3) by (rule entry_decode)
  show ?case
  proof (cases ts)
    case Nil
    have "splitOn (\<lambda>c. c = CHR '','') (w @ escapeYamlString t) = [w @ escapeYamlString t]"
      using wc by (rule splitOn_none)
    then show ?thesis using Nil dec ne by simp
  next
    case (Cons t' ts')
    have j: "w @ join '', '' (map escapeYamlString (t # ts))
        = (w @ escapeYamlString t) @ CHR '','' # ('' '' @ join '', '' (map escapeYamlString ts))"
      using Cons by simp
    have s: "splitOn (\<lambda>c. c = CHR '','') (w @ join '', '' (map escapeYamlString (t # ts)))
        = (w @ escapeYamlString t)
          # splitOn (\<lambda>c. c = CHR '','') ('' '' @ join '', '' (map escapeYamlString ts))"
      unfolding j using wc by (intro splitOn_sep) simp_all
    have ih: "filter (\<lambda>t. length t > 0)
       (map (\<lambda>t. filter (\<lambda>c. \<not> isQuote c) (trim t))
          (splitOn (\<lambda>c. c = CHR '','') ('' '' @ join '', '' (map escapeYamlString ts)))) = ts"
      using Cons.IH[of "'' ''"] Cons.prems(1) Cons by (simp add: isSpace_space)
    show ?thesis unfolding s using dec ne ih by simp
  qed
qed

lemma parseList_join:
  assumes "list_all plainEntry ts"
  shows "parseList (join '', '' (map escapeYamlString ts)) = ts"
proof (cases "ts = []")
  case True
  then show ?thesis by (simp add: parseList_def trim_def)
next
  case False
  from parseList_join_aux[OF assms False, of "[]"] show ?thesis
    by (simp add: parseList_def)
qed

lemma summary_decode:
  assumes "plainSummary s"
  shows "stripQuotes (trim (escapeYamlString s)) = s"
proof -
  have nd: "dquote \<notin> set s" and ne: "s \<noteq> []" using assms by (auto simp: plainSummary_def)
  from escape_cases[OF nd] show ?thesis
  proof
    assume a: "escapeYamlString s = s \<and> trim s = s \<and> (\<forall>c \<in> set s. \<not> yamlSpecial c)"
    then have q: "\<forall>c \<in> set s. \<not> isQuote c" by (auto simp: yamlSpecial_def isQuote_def)
    have h: "\<not> isQuote (hd s)" and l: "\<not> isQuote (last s)" using q ne by simp_all
    obtain c cs where c: "s = c # cs" using ne by (cases s) auto
    show ?thesis using a c h l by (simp add: stripQuotes_def)
  next
    assume "escapeYamlString s = dquote # s @ [dquote]"
    then show ?thesis by (simp add: trim_quoted stripQuotes_def isQuote_dquote)
  qed
qed

section \<open>Matching against a serialized header\<close>

lemma rmatch_lit:
  "rmatch (lit K @ r) s = (if prefix K s then rmatch r (drop (length K) s) else None)"
proof (induction K arbitrary: s)
  case Nil
  then show ?case by (simp add: lit_def)
next
  case (Cons k K)
  then have ih: "\<And>s. rmatch (map Chr K @ r) s
      = (if prefix K s then rmatch r (drop (length K) s) else None)"
    by (simp add: lit_def)
  show ?case by (cases s) (simp_all add: lit_def ih)
qed

lemma rsearch_step:
  "rsearch (lit K @ r) (x # T)
     = (if prefix K (x # T)
        then (case rmatch r (drop (length K) (x # T)) of
                Some res \<Rightarrow> Some res
              | None \<Rightarrow> rsearch (lit K @ r) T)
        else rsearch (lit K @ r) T)"
  by (simp add: rmatch_lit)

lemma prefix_sep: "c \<notin> set K \<Longrightarrow> prefix K (U @ c # V) = prefix K U"
proof (induction U arbitrary: K)
  case Nil
  then show ?case by (cases K) auto
next
  case (Cons u U)
  then show ?case by (cases K) auto
qed

lemma rsearch_skip:
  assumes "\<not> containsStr X K" "c \<notin> set K"
  shows "rsearch (lit K @ r) (X @ c # T) = rsearch (lit K @ r) T"
  using assms(1)
proof (induction X)
  case Nil
  have "\<not> prefix K (c # T)" using assms(2) Nil by (cases K) auto
  then show ?case by (simp add: rmatch_lit)
next
  case (Cons x X)
  have "\<not> prefix K (x # X)" using Cons.prems by simp
  then have "\<not> prefix K ((x # X) @ c # T)" using prefix_sep[OF assms(2)] by blast
  then have "rsearch (lit K @ r) ((x # X) @ c # T) = rsearch (lit K @ r) (X @ c # T)"
    by (simp add: rmatch_lit)
  then show ?case using Cons by simp
qed

lemma star_stop: "s = [] \<or> \<not> in_cls k (hd s) \<Longrightarrow> rmatch (Star k # r) s = rmatch r s"
  by (cases s) auto

lemma star_run:
  "list_all (in_cls k) u \<Longrightarrow> rmatch (Star k # r) s = Some res
     \<Longrightarrow> rmatch (Star k # r) (u @ s) = Some res"
  by (induction u) auto

lemma plus_run:
  "u \<noteq> [] \<Longrightarrow> list_all (in_cls k) u \<Longrightarrow> rmatch (Star k # r) s = Some res
     \<Longrightarrow> rmatch (Plus k # r) (u @ s) = Some res"
  using star_run[of k "tl u" r s res] by (cases u) auto

lemma lazy_until:
  assumes "list_all (\<lambda>c. in_cls k c \<and> c \<noteq> d) u" "rmatch r s = Some (ms, rest)"
  shows "rmatch (Lazy k # GClose # Chr d # r) (u @ d # s) = Some ((d # s) # ms, rest)"
  using assms(1)
proof (induction u)
  case Nil
  then show ?case using assms(2) by simp
next
  case (Cons x u)
  then show ?case by simp
qed

text \<open>The tails of the field patterns, at the value of the field.\<close>

lemma list_tail:
  assumes "list_all (\<lambda>c. \<not> isLineTerminator c \<and> c \<noteq> CHR '']'') X"
  shows "rmatch [Star Space, Chr (CHR ''[''), GOpen, Lazy Dot, GClose, Chr (CHR '']'')]
           ('' ['' @ X @ CHR '']'' # V)
         = Some ([X @ CHR '']'' # V, CHR '']'' # V], V)"
proof -
  have l: "rmatch [Lazy Dot, GClose, Chr (CHR '']'')] (X @ CHR '']'' # V)
         = Some ([CHR '']'' # V], V)"
    using lazy_until[of Dot "CHR '']''" X "[]" V "[]" V] assms by (simp add: list_all_iff)
  show ?thesis by (simp add: isSpace_def l)
qed

lemma value_tail:
  assumes "Y \<noteq> []" "list_all (in_cls k) Y" "\<not> isSpace (hd Y)" "V = [] \<or> \<not> in_cls k (hd V)"
  shows "rmatch [Star Space, GOpen, Plus k, GClose] ('' '' @ Y @ V) = Some ([Y @ V, V], V)"
proof -
  have "rmatch [Star k, GClose] V = Some ([V], V)"
    using star_stop[OF assms(4), of "[GClose]"] by simp
  then have p: "rmatch [Plus k, GClose] (Y @ V) = Some ([V], V)"
    using plus_run[OF assms(1,2)] by simp
  have h: "Y @ V = [] \<or> \<not> in_cls Space (hd (Y @ V))" using assms(1,3) by simp
  have s: "rmatch [Star Space, GOpen, Plus k, GClose] (Y @ V) = Some ([Y @ V, V], V)"
    using star_stop[OF h, of "[GOpen, Plus k, GClose]"] p by simp
  show ?thesis using s by (simp add: isSpace_def)
qed

lemma group1_append: "group1 ([X @ R, R], V) = X"
  by simp

lemma countRegex_alt:
  "countRegex key = lit (key @ '':'') @ [Star Space, GOpen, Plus Digit, GClose]"
  by (simp add: countRegex_def lit_def)

lemma listRegex_alt:
  "listRegex key = lit (key @ '':'')
     @ [Star Space, Chr (CHR ''[''), GOpen, Lazy Dot, GClose, Chr (CHR '']'')]"
  by (simp add: listRegex_def lit_def)

lemma skip_key:
  assumes "noFieldKey S" "K \<in> set fieldKeys" "c \<notin> set K"
  shows "rsearch (lit K @ r) (S @ c # T) = rsearch (lit K @ r) T"
  using assms rsearch_skip[of S K c r T] by (simp add: noFieldKey_def)

lemma digits_noFieldKey:
  assumes "list_all (\<lambda>c. isDigit c \<or> c = CHR ''.'') S"
  shows "noFieldKey S"
proof -
  have "\<not> containsStr S K" if "K \<noteq> []" "\<not> isDigit (hd K)" "hd K \<noteq> CHR ''.''" for K
    using assms
  proof (induction S)
    case Nil
    then show ?case using that by simp
  next
    case (Cons x S)
    have "\<not> prefix K (x # S)" using that Cons.prems by (cases K) auto
    then show ?case using Cons by simp
  qed
  then show ?thesis by (simp add: noFieldKey_def fieldKeys_def isDigit_def)
qed

text \<open>Where each field pattern matches in a serialized header.\<close>

lemma list_tail_cons:
  assumes "list_all (\<lambda>c. \<not> isLineTerminator c \<and> c \<noteq> CHR '']'') X"
  shows "rmatch [Star Space, Chr (CHR ''[''), GOpen, Lazy Dot, GClose, Chr (CHR '']'')]
           (CHR '' '' # CHR ''['' # X @ CHR '']'' # V)
         = Some ([X @ CHR '']'' # V, CHR '']'' # V], V)"
  using list_tail[OF assms, of V] by simp

lemma find_tags:
  assumes "list_all (\<lambda>c. \<not> isLineTerminator c \<and> c \<noteq> CHR '']'') X"
  shows "map_option group1 (rsearch (listRegex ''tags'') (headerText X Y Z N W a b c)) = Some X"
  by (simp add: listRegex_alt headerText_def rsearch_step list_tail_cons[OF assms]
      del: rsearch.simps rmatch.simps)

lemma find_summary:
  assumes "noFieldKey X"
    and "Y \<noteq> []" "list_all (\<lambda>c. \<not> isLineTerminator c) Y" "\<not> isSpace (hd Y)"
  shows "map_option group1 (rsearch summaryRegex (headerText X Y Z N W a b c)) = Some Y"
proof -
  have t: "\<And>V. rmatch [Star Space, GOpen, Plus Dot, GClose] (CHR '' '' # Y @ LF # V)
      = Some ([Y @ LF # V, LF # V], LF # V)"
    using value_tail[of Y Dot] assms(2-4) by (simp add: isLineTerminator_def list_all_iff)
  show ?thesis
    by (simp add: summaryRegex_def headerText_def rsearch_step t fieldKeys_def
        skip_key[OF assms(1)] del: rsearch.simps rmatch.simps)
qed

lemma find_relevantTo:
  assumes "noFieldKey X" "noFieldKey Y"
    and "list_all (\<lambda>c. \<not> isLineTerminator c \<and> c \<noteq> CHR '']'') Z"
  shows "map_option group1 (rsearch (listRegex ''relevantTo'') (headerText X Y Z N W a b c))
     = Some Z"
  by (simp add: listRegex_alt headerText_def rsearch_step list_tail_cons[OF assms(3)]
      fieldKeys_def skip_key[OF assms(1)] skip_key[OF assms(2)]
      del: rsearch.simps rmatch.simps)

lemma find_importance:
  assumes "noFieldKey X" "noFieldKey Y" "noFieldKey Z"
    and "N \<noteq> []" "list_all (\<lambda>c. isDigit c \<or> c = CHR ''.'') N"
  shows "map_option group1 (rsearch importanceRegex (headerText X Y Z N W a b c)) = Some N"
proof -
  have h: "\<not> isSpace (hd N)" using assms(4,5) by (cases N) (auto simp: isDigit_def isSpace_def)
  have t: "\<And>V. rmatch [Star Space, GOpen, Plus DigitDot, GClose] (CHR '' '' # N @ LF # V)
      = Some ([N @ LF # V, LF # V], LF # V)"
    using value_tail[of N DigitDot] assms(4,5) h by (simp add: isDigit_def list_all_iff)
  show ?thesis
    by (simp add: importanceRegex_def headerText_def rsearch_step t fieldKeys_def
        skip_key[OF assms(1)] skip_key[OF assms(2)] skip_key[OF assms(3)]
        del: rsearch.simps rmatch.simps)
qed

lemma find_relatedFiles:
  assumes "noFieldKey X" "noFieldKey Y" "noFieldKey Z" "noFieldKey N"
    and "list_all (\<lambda>c. \<not> isLineTerminator c \<and> c \<noteq> CHR '']'') W"
  shows "map_option group1 (rsearch (listRegex ''relatedFiles'') (headerText X Y Z N W a b c))
     = Some W"
  by (simp add: listRegex_alt headerText_def rsearch_step list_tail_cons[OF assms(5)]
      fieldKeys_def skip_key[OF assms(1)] skip_key[OF assms(2)] skip_key[OF assms(3)]
      skip_key[OF assms(4)] del: rsearch.simps rmatch.simps)

lemma count_tail:
  assumes "list_all isDigit n" "n \<noteq> []" "V = [] \<or> \<not> isDigit (hd V)"
  shows "rmatch [Star Space, GOpen, Plus Digit, GClose] (CHR '' '' # n @ V) = Some ([n @ V, V], V)"
proof -
  have h: "\<not> isSpace (hd n)" using assms(1,2) by (cases n) (auto simp: isDigit_def isSpace_def)
  show ?thesis using value_tail[of n Digit V] assms h by (simp add: list_all_iff)
qed

lemma find_loaded:
  assumes "noFieldKey X" "noFieldKey Y" "noFieldKey Z" "noFieldKey N" "noFieldKey W"
    and "list_all isDigit a" "a \<noteq> []"
  shows "map_option group1 (rsearch (countRegex ''loaded'') (headerText X Y Z N W a b c))
     = Some a"
proof -
  have t: "\<And>V. rmatch [Star Space, GOpen, Plus Digit, GClose] (CHR '' '' # a @ LF # V)
      = Some ([a @ LF # V, LF # V], LF # V)"
    using assms(6,7) by (intro count_tail) (simp_all add: isDigit_def)
  show ?thesis
    by (simp add: countRegex_alt headerText_def rsearch_step t fieldKeys_def
        skip_key[OF assms(1)] skip_key[OF assms(2)] skip_key[OF assms(3)]
        skip_key[OF assms(4)] skip_key[OF assms(5)] del: rsearch.simps rmatch.simps)
qed

lemma find_referenced:
  assumes "noFieldKey X" "noFieldKey Y" "noFieldKey Z" "noFieldKey N" "noFieldKey W"
    "noFieldKey a"
    and "list_all isDigit b" "b \<noteq> []"
  shows "map_option group1 (rsearch (countRegex ''referenced'') (headerText X Y Z N W a b c))
     = Some b"
proof -
  have t: "\<And>V. rmatch [Star Space, GOpen, Plus Digit, GClose] (CHR '' '' # b @ LF # V)
      = Some ([b @ LF # V, LF # V], LF # V)"
    using assms(7,8) by (intro count_tail) (simp_all add: isDigit_def)
  show ?thesis
    by (simp add: countRegex_alt headerText_def rsearch_step t fieldKeys_def
        skip_key[OF assms(1)] skip_key[OF assms(2)] skip_key[OF assms(3)]
        skip_key[OF assms(4)] skip_key[OF assms(5)] skip_key[OF assms(6)]
        del: rsearch.simps rmatch.simps)
qed

lemma find_successful:
  assumes "noFieldKey X" "noFieldKey Y" "noFieldKey Z" "noFieldKey N" "noFieldKey W"
    "noFieldKey a" "noFieldKey b"
    and "list_all isDigit c" "c \<noteq> []"
  shows "map_option group1
      (rsearch (countRegex ''successfulFeatures'') (headerText X Y Z N W a b c)) = Some c"
proof -
  have t: "rmatch [Star Space, GOpen, Plus Digit, GClose] (CHR '' '' # c) = Some ([c, []], [])"
    using count_tail[of c "[]"] assms(8,9) by simp
  show ?thesis
    by (simp add: countRegex_alt headerText_def rsearch_step t fieldKeys_def
        skip_key[OF assms(1)] skip_key[OF assms(2)] skip_key[OF assms(3)]
        skip_key[OF assms(4)] skip_key[OF assms(5)] skip_key[OF assms(6)]
        skip_key[OF assms(7)] del: rsearch.simps rmatch.simps)
qed

lemma lazy_char:
  "x \<noteq> LF \<Longrightarrow> x \<noteq> CR \<Longrightarrow>
   rmatch (Lazy AnyChar # GClose # Opt CR # Chr LF # r) (x # T)
     = rmatch (Lazy AnyChar # GClose # Opt CR # Chr LF # r) T"
  by simp

lemma lazy_skip:
  "list_all (\<lambda>c. c \<noteq> LF \<and> c \<noteq> CR) S \<Longrightarrow>
   rmatch (Lazy AnyChar # GClose # Opt CR # Chr LF # r) (S @ T)
     = rmatch (Lazy AnyChar # GClose # Opt CR # Chr LF # r) T"
  by (induction S) simp_all

lemma lazy_lf:
  "d \<noteq> CHR ''-'' \<Longrightarrow>
   rmatch (Lazy AnyChar # GClose # Opt CR # Chr LF # Chr (CHR ''-'') # r) (LF # d # T)
     = rmatch (Lazy AnyChar # GClose # Opt CR # Chr LF # Chr (CHR ''-'') # r) (d # T)"
  by simp

lemma delim_end_fail:
  "LF \<notin> set (takeWhile isSpace b) \<Longrightarrow> rmatch [Star Space, Opt CR, Chr LF] b = None"
proof (induction b)
  case Nil
  then show ?case by simp
next
  case (Cons x b)
  show ?case
  proof (cases "isSpace x")
    case True
    then have x: "x \<noteq> LF" and ih: "rmatch [Star Space, Opt CR, Chr LF] b = None"
      using Cons by auto
    have "b = [] \<or> hd b \<noteq> LF"
    proof (cases b)
      case Nil
      then show ?thesis by simp
    next
      case (Cons y ys)
      have "isSpace LF" by (simp add: isSpace_def)
      then have "y \<noteq> LF" using Cons.prems True Cons by auto
      then show ?thesis using Cons by simp
    qed
    then have "rmatch [Chr LF] b = None" by (cases b) auto
    then show ?thesis using True x ih by simp
  next
    case False
    then have "x \<noteq> LF" "x \<noteq> CR" by (auto simp: isSpace_def)
    then show ?thesis using False by simp
  qed
qed

lemma delim_end:
  assumes "plainBody b"
  shows "rmatch [Star Space, Opt CR, Chr LF] (LF # b) = Some ([], b)"
  using delim_end_fail[of b] assms by (simp add: plainBody_def isSpace_def)

lemma lazy_close:
  assumes "plainBody b"
  shows "rmatch (Lazy AnyChar # GClose # Opt CR # Chr LF # Chr (CHR ''-'') # Chr (CHR ''-'')
            # Chr (CHR ''-'') # [Star Space, Opt CR, Chr LF])
           (LF # CHR ''-'' # CHR ''-'' # CHR ''-'' # LF # b)
         = Some ([LF # CHR ''-'' # CHR ''-'' # CHR ''-'' # LF # b], b)"
  using delim_end[OF assms] by simp

lemma delim_open:
  assumes "\<not> isSpace d"
  shows "rmatch (Chr (CHR ''-'') # Chr (CHR ''-'') # Chr (CHR ''-'') # Star Space # Opt CR
            # Chr LF # GOpen # r) (CHR ''-'' # CHR ''-'' # CHR ''-'' # LF # d # T)
         = map_option (\<lambda>(ms, rest). ((d # T) # ms, rest)) (rmatch r (d # T))"
proof -
  have "d \<noteq> LF" "d \<noteq> CR" using assms by (auto simp: isSpace_def)
  then show ?thesis using assms by (simp add: isSpace_def)
qed

lemma frontmatter_match:
  assumes "list_all (\<lambda>c. c \<noteq> LF \<and> c \<noteq> CR) X" "list_all (\<lambda>c. c \<noteq> LF \<and> c \<noteq> CR) Y"
    "list_all (\<lambda>c. c \<noteq> LF \<and> c \<noteq> CR) Z" "list_all (\<lambda>c. c \<noteq> LF \<and> c \<noteq> CR) N"
    "list_all (\<lambda>c. c \<noteq> LF \<and> c \<noteq> CR) W" "list_all (\<lambda>c. c \<noteq> LF \<and> c \<noteq> CR) a"
    "list_all (\<lambda>c. c \<noteq> LF \<and> c \<noteq> CR) b" "list_all (\<lambda>c. c \<noteq> LF \<and> c \<noteq> CR) c"
    and "plainBody bd"
  shows "rmatch frontmatterRegex
           (''---'' @ [LF] @ headerText X Y Z N W a b c @ [LF] @ ''---'' @ [LF] @ bd)
         = Some ([headerText X Y Z N W a b c @ ([LF] @ ''---'' @ [LF] @ bd),
                  [LF] @ ''---'' @ [LF] @ bd], bd)"
  by (simp add: frontmatterRegex_def lit_def headerText_def delim_open isSpace_def
      lazy_char lazy_lf lazy_close[OF assms(9)]
      lazy_skip[OF assms(1)] lazy_skip[OF assms(2)] lazy_skip[OF assms(3)]
      lazy_skip[OF assms(4)] lazy_skip[OF assms(5)] lazy_skip[OF assms(6)]
      lazy_skip[OF assms(7)] lazy_skip[OF assms(8)]
      del: rmatch.simps)

lemma containsStr_sep:
  "c \<notin> set K \<Longrightarrow> containsStr (U @ c # V) K = (containsStr U K \<or> containsStr V K)"
proof (induction U)
  case Nil
  then show ?case by (cases K) auto
next
  case (Cons x U)
  have "prefix K ((x # U) @ c # V) = prefix K (x # U)" using Cons.prems by (rule prefix_sep)
  then show ?case using Cons by auto
qed

lemma containsStr_cons: "c \<notin> set K \<Longrightarrow> K \<noteq> [] \<Longrightarrow> containsStr (c # V) K = containsStr V K"
  using containsStr_sep[of c K "[]" V] by simp

lemma containsStr_snoc: "c \<notin> set K \<Longrightarrow> K \<noteq> [] \<Longrightarrow> containsStr (U @ [c]) K = containsStr U K"
  using containsStr_sep[of c K U "[]"] by simp

lemma fieldKeys_chars:
  "K \<in> set fieldKeys \<Longrightarrow>
     K \<noteq> [] \<and> dquote \<notin> set K \<and> CHR '','' \<notin> set K \<and> CHR '' '' \<notin> set K"
  by (auto simp: fieldKeys_def)

lemma escape_noFieldKey:
  assumes "noFieldKey t" "dquote \<notin> set t"
  shows "noFieldKey (escapeYamlString t)"
proof -
  have "\<not> containsStr (escapeYamlString t) K" if K: "K \<in> set fieldKeys" for K
  proof -
    have t: "\<not> containsStr t K" using assms(1) K by (simp add: noFieldKey_def)
    from fieldKeys_chars[OF K] have k: "K \<noteq> []" "dquote \<notin> set K" by simp_all
    from escape_cases[OF assms(2)] show ?thesis
    proof
      assume "escapeYamlString t = t \<and> trim t = t \<and> (\<forall>c \<in> set t. \<not> yamlSpecial c)"
      then show ?thesis using t by simp
    next
      assume e: "escapeYamlString t = dquote # t @ [dquote]"
      have "containsStr (dquote # t @ [dquote]) K = containsStr (t @ [dquote]) K"
        using k by (intro containsStr_cons) simp_all
      also have "\<dots> = containsStr t K" using k by (intro containsStr_snoc) simp_all
      finally show ?thesis using t e by simp
    qed
  qed
  then show ?thesis by (simp add: noFieldKey_def)
qed

lemma join_noFieldKey:
  assumes "list_all noFieldKey es"
  shows "noFieldKey (join '', '' es)"
proof -
  have "\<not> containsStr (join '', '' es) K" if K: "K \<in> set fieldKeys" for K
    using assms
  proof (induction es)
    case Nil
    then show ?case using fieldKeys_chars[OF K] by simp
  next
    case (Cons x es)
    have x: "\<not> containsStr x K" using Cons.prems K by (simp add: noFieldKey_def)
    show ?case
    proof (cases es)
      case Nil
      then show ?thesis using x by simp
    next
      case (Cons y ys)
      from fieldKeys_chars[OF K] have k: "K \<noteq> []" "CHR '','' \<notin> set K" "CHR '' '' \<notin> set K"
        by simp_all
      have r: "\<not> containsStr (join '', '' (y # ys)) K" using Cons.IH Cons.prems Cons by simp
      have "containsStr (x @ CHR '','' # CHR '' '' # join '', '' (y # ys)) K
          = (containsStr x K \<or> containsStr (CHR '' '' # join '', '' (y # ys)) K)"
        using k(2) by (rule containsStr_sep)
      also have "containsStr (CHR '' '' # join '', '' (y # ys)) K
          = containsStr (join '', '' (y # ys)) K"
        using k(3,1) by (rule containsStr_cons)
      finally show ?thesis using x r Cons by simp
    qed
  qed
  then show ?thesis by (simp add: noFieldKey_def)
qed

lemma join_chars:
  assumes "\<forall>e \<in> set es. \<forall>c \<in> set e. P c" "\<forall>c \<in> set sep. P c"
  shows "\<forall>c \<in> set (join sep es). P c"
  using assms by (induction sep es rule: join.induct) auto

lemma not_lt_dquote: "\<not> isLineTerminator dquote" by (simp add: isLineTerminator_def)

text \<open>What is known of a serialized list of plain entries.\<close>

lemma serialized_list:
  assumes "list_all plainEntry ts"
  defines "X \<equiv> join '', '' (map escapeYamlString ts)"
  shows "list_all (\<lambda>c. \<not> isLineTerminator c \<and> c \<noteq> CHR '']'') X"
    and "noFieldKey X" and "parseList X = ts"
proof -
  have e: "\<forall>e \<in> set (map escapeYamlString ts).
      \<forall>c \<in> set e. \<not> isLineTerminator c \<and> c \<noteq> CHR '']''"
  proof (intro ballI)
    fix e c assume "e \<in> set (map escapeYamlString ts)" "c \<in> set e"
    then obtain t where t: "t \<in> set ts" "c \<in> set (escapeYamlString t)" by auto
    then have p: "plainEntry t" using assms(1) by (simp add: list_all_iff)
    then have nd: "dquote \<notin> set t" using isQuote_dquote by (auto simp: plainEntry_def)
    from escape_set[OF nd] t(2) have "c = dquote \<or> c \<in> set t" by auto
    then show "\<not> isLineTerminator c \<and> c \<noteq> CHR '']''"
      using p not_lt_dquote by (auto simp: plainEntry_def)
  qed
  have "\<forall>c \<in> set X. \<not> isLineTerminator c \<and> c \<noteq> CHR '']''"
    unfolding X_def using e by (rule join_chars) (simp add: isLineTerminator_def)
  then show "list_all (\<lambda>c. \<not> isLineTerminator c \<and> c \<noteq> CHR '']'') X"
    by (simp add: list_all_iff)
  have "list_all noFieldKey (map escapeYamlString ts)"
  proof -
    have "noFieldKey (escapeYamlString t)" if "t \<in> set ts" for t
    proof -
      have p: "plainEntry t" using that assms(1) by (simp add: list_all_iff)
      then have "dquote \<notin> set t" using isQuote_dquote by (auto simp: plainEntry_def)
      then show ?thesis using p by (intro escape_noFieldKey) (simp_all add: plainEntry_def)
    qed
    then show ?thesis by (simp add: list_all_iff)
  qed
  then show "noFieldKey X" unfolding X_def by (rule join_noFieldKey)
  show "parseList X = ts" unfolding X_def using assms(1) by (rule parseList_join)
qed

lemma trim_id_hd:
  assumes "trim s = s" "s \<noteq> []"
  shows "\<not> isSpace (hd s)"
proof
  assume h: "isSpace (hd s)"
  obtain x xs where s: "s = x # xs" using assms(2) by (cases s) auto
  have "length (trim s) \<le> length (dropWhile isSpace s)"
    using length_dropWhile_le[of isSpace "rev (dropWhile isSpace s)"] by (simp add: trim_def)
  also have "\<dots> = length (dropWhile isSpace xs)" using h s by simp
  also have "\<dots> \<le> length xs" by (rule length_dropWhile_le)
  finally have "length (trim s) < length s" using s by simp
  then show False using assms(1) by simp
qed

lemma serialized_summary:
  assumes "plainSummary s"
  defines "Y \<equiv> escapeYamlString s"
  shows "Y \<noteq> []" and "list_all (\<lambda>c. \<not> isLineTerminator c) Y" and "\<not> isSpace (hd Y)"
    and "noFieldKey Y" and "stripQuotes (trim Y) = s"
proof -
  have nd: "dquote \<notin> set s" and ne: "s \<noteq> []" and nl: "\<forall>c \<in> set s. \<not> isLineTerminator c"
    and nk: "noFieldKey s"
    using assms(1) by (auto simp: plainSummary_def)
  from escape_cases[OF nd]
  have c: "(Y = s \<and> trim s = s) \<or> Y = dquote # s @ [dquote]" unfolding Y_def by blast
  then show "Y \<noteq> []" using ne by auto
  show "list_all (\<lambda>c. \<not> isLineTerminator c) Y"
    using c nl not_lt_dquote by (auto simp: list_all_iff)
  show "\<not> isSpace (hd Y)" using c trim_id_hd[of s] ne not_space_dquote by auto
  show "noFieldKey Y" unfolding Y_def using nk nd by (rule escape_noFieldKey)
  show "stripQuotes (trim Y) = s" unfolding Y_def using assms(1) by (rule summary_decode)
qed

lemma digit_not_break: "isDigit c \<or> c = CHR ''.'' \<Longrightarrow> c \<noteq> LF \<and> c \<noteq> CR"
proof -
  assume a: "isDigit c \<or> c = CHR ''.''"
  have "\<not> isDigit LF" "\<not> isDigit CR" by (simp_all add: isDigit_def)
  then show ?thesis using a by auto
qed

lemma digits_no_breaks:
  assumes "list_all (\<lambda>c. isDigit c \<or> c = CHR ''.'') S"
  shows "list_all (\<lambda>c. c \<noteq> LF \<and> c \<noteq> CR) S"
  using assms by (induction S) (simp_all add: digit_not_break)

lemma lt_no_breaks:
  "list_all (\<lambda>c. \<not> isLineTerminator c) S \<Longrightarrow> list_all (\<lambda>c. c \<noteq> LF \<and> c \<noteq> CR) S"
  by (auto simp: list_all_iff isLineTerminator_def)

lemma digitsOf_digitdot: "list_all (\<lambda>c. isDigit c \<or> c = CHR ''.'') (digitsOf n)"
  using digitsOf_all_digits[of n] by (simp add: list_all_iff)

lemma serialize_header:
  "serializeFrontmatter m
     = ''---'' @ [LF]
       @ headerText (join '', '' (map escapeYamlString (tags m))) (escapeYamlString (summary m))
           (join '', '' (map escapeYamlString (relevantTo m))) (numToString (importance m))
           (join '', '' (map escapeYamlString (relatedFiles m)))
           (digitsOf (loaded (usageStats m))) (digitsOf (referenced (usageStats m)))
           (digitsOf (successfulFeatures (usageStats m)))
       @ [LF] @ ''---''"
  by (simp add: serializeFrontmatter_def headerText_def Let_def)

section \<open>The round trip\<close>

lemma found: "map_option group1 r = Some v \<Longrightarrow> \<exists>g. r = Some g \<and> group1 g = v"
  by (cases r) auto

lemma list_no_breaks:
  "list_all (\<lambda>c. \<not> isLineTerminator c \<and> c \<noteq> CHR '']'') S
     \<Longrightarrow> list_all (\<lambda>c. c \<noteq> LF \<and> c \<noteq> CR) S"
  by (induction S) (simp_all add: isLineTerminator_def)

lemma parse_serialized:
  assumes "roundTrippable m" "plainBody bd"
  shows "parseFrontmatter (serializeFrontmatter m @ [LF] @ bd) = (m, bd)"
proof -
  define X where "X = join '', '' (map escapeYamlString (tags m))"
  define Y where "Y = escapeYamlString (summary m)"
  define Z where "Z = join '', '' (map escapeYamlString (relevantTo m))"
  define N where "N = numToString (importance m)"
  define W where "W = join '', '' (map escapeYamlString (relatedFiles m))"
  define a where "a = digitsOf (loaded (usageStats m))"
  define b where "b = digitsOf (referenced (usageStats m))"
  define c where "c = digitsOf (successfulFeatures (usageStats m))"
  define F where "F = headerText X Y Z N W a b c"
  define R where "R = [LF] @ ''---'' @ [LF] @ bd"
  from assms(1) have rt: "list_all plainEntry (tags m)" "plainSummary (summary m)"
    "list_all plainEntry (relevantTo m)" "plainImportance (importance m)"
    "list_all plainEntry (relatedFiles m)"
    by (simp_all add: roundTrippable_def)
  note xs = serialized_list[OF rt(1), folded X_def]
  note ys = serialized_summary[OF rt(2), folded Y_def]
  note zs = serialized_list[OF rt(3), folded Z_def]
  note ws = serialized_list[OF rt(5), folded W_def]
  have ns: "N \<noteq> []" "list_all (\<lambda>c. isDigit c \<or> c = CHR ''.'') N"
    using numToString_chars[OF rt(4)] by (simp_all add: N_def)
  have nk: "noFieldKey N" using ns(2) by (rule digits_noFieldKey)
  have ad: "list_all isDigit a" "a \<noteq> []" "noFieldKey a"
    by (simp_all add: a_def digitsOf_all_digits digitsOf_nonempty
          digits_noFieldKey[OF digitsOf_digitdot])
  have bdg: "list_all isDigit b" "b \<noteq> []" "noFieldKey b"
    by (simp_all add: b_def digitsOf_all_digits digitsOf_nonempty
          digits_noFieldKey[OF digitsOf_digitdot])
  have cd: "list_all isDigit c" "c \<noteq> []"
    by (simp_all add: c_def digitsOf_all_digits digitsOf_nonempty)
  have br: "list_all (\<lambda>c. c \<noteq> LF \<and> c \<noteq> CR) X" "list_all (\<lambda>c. c \<noteq> LF \<and> c \<noteq> CR) Y"
    "list_all (\<lambda>c. c \<noteq> LF \<and> c \<noteq> CR) Z" "list_all (\<lambda>c. c \<noteq> LF \<and> c \<noteq> CR) N"
    "list_all (\<lambda>c. c \<noteq> LF \<and> c \<noteq> CR) W" "list_all (\<lambda>c. c \<noteq> LF \<and> c \<noteq> CR) a"
    "list_all (\<lambda>c. c \<noteq> LF \<and> c \<noteq> CR) b" "list_all (\<lambda>c. c \<noteq> LF \<and> c \<noteq> CR) c"
    using list_no_breaks[OF xs(1)] lt_no_breaks[OF ys(2)] list_no_breaks[OF zs(1)]
      digits_no_breaks[OF ns(2)] list_no_breaks[OF ws(1)]
      digits_no_breaks[OF digitsOf_digitdot]
    by (simp_all only: a_def b_def c_def)
  have tx: "serializeFrontmatter m @ [LF] @ bd = ''---'' @ [LF] @ F @ [LF] @ ''---'' @ [LF] @ bd"
    by (simp add: serialize_header F_def X_def Y_def Z_def N_def W_def a_def b_def c_def)
  have mt: "rmatch frontmatterRegex (serializeFrontmatter m @ [LF] @ bd) = Some ([F @ R, R], bd)"
    unfolding tx F_def R_def using br assms(2) by (rule frontmatter_match)
  have g: "group1 ([F @ R, R], bd) = F" by (rule group1_append)
  obtain g1 where g1: "rsearch (listRegex ''tags'') F = Some g1" "group1 g1 = X"
    using found[OF find_tags[OF xs(1)]] unfolding F_def by blast
  obtain g2 where g2: "rsearch summaryRegex F = Some g2" "group1 g2 = Y"
    using found[OF find_summary[OF xs(2) ys(1,2,3)]] unfolding F_def by blast
  obtain g3 where g3: "rsearch (listRegex ''relevantTo'') F = Some g3" "group1 g3 = Z"
    using found[OF find_relevantTo[OF xs(2) ys(4) zs(1)]] unfolding F_def by blast
  obtain g4 where g4: "rsearch importanceRegex F = Some g4" "group1 g4 = N"
    using found[OF find_importance[OF xs(2) ys(4) zs(2) ns]] unfolding F_def by blast
  obtain g5 where g5: "rsearch (listRegex ''relatedFiles'') F = Some g5" "group1 g5 = W"
    using found[OF find_relatedFiles[OF xs(2) ys(4) zs(2) nk ws(1)]] unfolding F_def by blast
  obtain g6 where g6: "rsearch (countRegex ''loaded'') F = Some g6" "group1 g6 = a"
    using found[OF find_loaded[OF xs(2) ys(4) zs(2) nk ws(2) ad(1,2)]] unfolding F_def by blast
  obtain g7 where g7: "rsearch (countRegex ''referenced'') F = Some g7" "group1 g7 = b"
    using found[OF find_referenced[OF xs(2) ys(4) zs(2) nk ws(2) ad(3) bdg(1,2)]]
    unfolding F_def by blast
  obtain g8 where g8: "rsearch (countRegex ''successfulFeatures'') F = Some g8" "group1 g8 = c"
    using found[OF find_successful[OF xs(2) ys(4) zs(2) nk ws(2) ad(3) bdg(3) cd]]
    unfolding F_def by blast
  have imp: "mathMax (Dec 0 0) (mathMin (Dec 1 0) (parseFloat N)) = importance m"
    unfolding N_def by (simp only: parseFloat_numToString[OF rt(4)] clamp_plain[OF rt(4)])
  have cnt: "parseInt a = loaded (usageStats m)" "parseInt b = referenced (usageStats m)"
    "parseInt c = successfulFeatures (usageStats m)"
    by (simp_all add: parseInt_def a_def b_def c_def natOfDigits_digitsOf)
  have "parseFrontmatter (serializeFrontmatter m @ [LF] @ bd)
      = (createDefaultMetadata\<lparr>tags := tags m, summary := summary m,
           relevantTo := relevantTo m, importance := importance m,
           relatedFiles := relatedFiles m,
           usageStats := (usageStats createDefaultMetadata)
             \<lparr>loaded := loaded (usageStats m), referenced := referenced (usageStats m),
              successfulFeatures := successfulFeatures (usageStats m)\<rparr>\<rparr>, bd)"
    unfolding parseFrontmatter_def mt
    by (simp only: option.case g Let_def snd_conv g1 g2 g3 g4 g5 g6 g7 g8
          xs(3) ys(5) zs(3) ws(3) imp cnt)
       simp
  also have "\<dots> = (m, bd)"
    by (cases m, cases "usageStats m") (simp add: createDefaultMetadata_def)
  finally show ?thesis .
qed

text \<open>
  The conditions of \<open>roundTrippable\<close> and \<open>plainBody\<close> are sufficient, not necessary; a
  metadata value and a body that meet them:
\<close>

lemma parse_serialized_example:
  "roundTrippable
     \<lparr>tags = [''auth'', ''jwt: tokens''], summary = ''JWT auth patterns'',
      relevantTo = [''login''], importance = Dec 95 2, relatedFiles = [],
      usageStats = \<lparr>loaded = 3, referenced = 2, successfulFeatures = 1\<rparr>\<rparr>
   \<and> plainBody ''# Auth\<newline>Use RS256''
   \<and> parseFrontmatter (serializeFrontmatter
        \<lparr>tags = [''auth'', ''jwt: tokens''], summary = ''JWT auth patterns'',
         relevantTo = [''login''], importance = Dec 95 2, relatedFiles = [],
         usageStats = \<lparr>loaded = 3, referenced = 2, successfulFeatures = 1\<rparr>\<rparr>
        @ [LF] @ ''# Auth\<newline>Use RS256'')
     = (\<lparr>tags = [''auth'', ''jwt: tokens''], summary = ''JWT auth patterns'',
         relevantTo = [''login''], importance = Dec 95 2, relatedFiles = [],
         usageStats = \<lparr>loaded = 3, referenced = 2, successfulFeatures = 1\<rparr>\<rparr>,
        ''# Auth\<newline>Use RS256'')"
proof -
  let ?m = "\<lparr>tags = [''auth'', ''jwt: tokens''], summary = ''JWT auth patterns'',
      relevantTo = [''login''], importance = Dec 95 2, relatedFiles = [],
      usageStats = \<lparr>loaded = 3, referenced = 2, successfulFeatures = 1\<rparr>\<rparr>"
  have e1: "list_all plainEntry [''auth'', ''jwt: tokens'']" by code_simp
  have e2: "plainSummary ''JWT auth patterns''" by code_simp
  have e3: "list_all plainEntry [''login'']" by code_simp
  have d: "digitsOf 95 = ''95''" by (simp add: digitsOf.simps digitChar_def)
  have e4: "plainImportance (Dec 95 2)" using d by (simp add: numeral_2_eq_2)
  have r: "roundTrippable ?m" using e1 e2 e3 e4 by (simp add: roundTrippable_def)
  have b: "plainBody ''# Auth\<newline>Use RS256''" by code_simp
  have p: "parseFrontmatter (serializeFrontmatter ?m @ [LF] @ ''# Auth\<newline>Use RS256'')
      = (?m, ''# Auth\<newline>Use RS256'')"
    by (rule parse_serialized[OF r b])
  show ?thesis by (intro conjI) (rule r, rule b, rule p)
qed

text \<open>
  C1.  Parsing what \<open>serializeFrontmatter\<close> writes for a metadata value that the parser
  has returned, followed by a line feed and a body, is to give the metadata and the body
  back.  It does not for the default metadata, which the parser returns for an input
  without a block: the empty summary is written as \<open>summary: \<close> with nothing behind it,
  and in \<open>/summary:\s*(.+)/\<close> the white space \<open>\s*\<close> crosses the line feed, so that the
  text of the next line, \<open>relevantTo: []\<close>, is read as the summary.  And a body that
  starts with a line feed comes back without it: the closing delimiter takes all white
  space up to the last line feed.
\<close>

theorem roundtrip_default_metadata:
  "parseFrontmatter ''no frontmatter here'' = (createDefaultMetadata, ''no frontmatter here'')
   \<and> summary createDefaultMetadata = []
   \<and> serializeFrontmatter createDefaultMetadata @ [LF] @ ''text''
       = ''---\<newline>tags: []\<newline>summary: \<newline>relevantTo: []\<newline>importance: 0.5\<newline>relatedFiles: []\<newline>usageStats:\<newline>  loaded: 0\<newline>  referenced: 0\<newline>  successfulFeatures: 0\<newline>---\<newline>text''
   \<and> parseFrontmatter (serializeFrontmatter createDefaultMetadata @ [LF] @ ''text'')
       = (createDefaultMetadata\<lparr>summary := ''relevantTo: []''\<rparr>, ''text'')
   \<and> parseFrontmatter ''---\<newline>summary: notes\<newline>---\<newline>''
       = (createDefaultMetadata\<lparr>summary := ''notes''\<rparr>, [])
   \<and> parseFrontmatter (serializeFrontmatter (createDefaultMetadata\<lparr>summary := ''notes''\<rparr>)
         @ [LF] @ ''\<newline>text'')
       = (createDefaultMetadata\<lparr>summary := ''notes''\<rparr>, ''text'')"
  by code_simp

section \<open>The entries of a parse result\<close>

text \<open>
  Whatever the input, the entries of the three lists that \<open>parseFrontmatter\<close> returns are
  non-empty and hold no quote, comma, closing bracket or line break: the group of the list
  pattern stops at the first closing bracket and cannot cross a line, the pieces are cut at
  the commas, and quotes and empty pieces are removed.
\<close>

lemma rsearch_is_match: "rsearch re s = Some res \<Longrightarrow> \<exists>s'. rmatch re s' = Some res"
proof (induction s)
  case Nil
  then show ?case by auto
next
  case (Cons x s)
  show ?case
  proof (cases "rmatch re (x # s)")
    case None
    then show ?thesis using Cons by simp
  next
    case (Some a)
    then have "rmatch re (x # s) = Some res" using Cons.prems by simp
    then show ?thesis by blast
  qed
qed

lemma star_is_match: "rmatch (Star k # r) s = Some res \<Longrightarrow> \<exists>s'. rmatch r s' = Some res"
proof (induction s)
  case Nil
  then show ?case by auto
next
  case (Cons x s)
  show ?case
  proof (cases "in_cls k x \<and> rmatch (Star k # r) s \<noteq> None")
    case True
    then have "rmatch (Star k # r) s = Some res" using Cons.prems by (auto split: option.splits)
    then show ?thesis by (rule Cons.IH)
  next
    case False
    then have "rmatch r (x # s) = Some res"
      using Cons.prems by (auto split: if_splits option.splits)
    then show ?thesis by blast
  qed
qed

lemma chr_is_match: "rmatch (Chr c # r) s = Some res \<Longrightarrow> \<exists>s'. rmatch r s' = Some res"
  by (cases s) (auto split: if_splits)

lemma lit_is_match: "rmatch (lit K @ r) s = Some res \<Longrightarrow> \<exists>s'. rmatch r s' = Some res"
  by (auto simp: rmatch_lit split: if_splits)

lemma lazy_bracket:
  "rmatch [Lazy Dot, GClose, Chr (CHR '']'')] s = Some (ms, rest)
   \<Longrightarrow> \<exists>u. s = u @ CHR '']'' # rest \<and> ms = [CHR '']'' # rest]
         \<and> list_all (\<lambda>c. \<not> isLineTerminator c \<and> c \<noteq> CHR '']'') u"
proof (induction s)
  case Nil
  then show ?case by simp
next
  case (Cons x s)
  show ?case
  proof (cases "x = CHR '']''")
    case True
    then have "ms = [CHR '']'' # rest] \<and> s = rest" using Cons.prems by auto
    then show ?thesis using True by simp
  next
    case False
    then have d: "\<not> isLineTerminator x"
      and m: "rmatch [Lazy Dot, GClose, Chr (CHR '']'')] s = Some (ms, rest)"
      using Cons.prems by (auto split: if_splits)
    from Cons.IH[OF m] obtain u where
      u: "s = u @ CHR '']'' # rest" "ms = [CHR '']'' # rest]"
         "list_all (\<lambda>c. \<not> isLineTerminator c \<and> c \<noteq> CHR '']'') u" by blast
    have "x # s = (x # u) @ CHR '']'' # rest \<and> ms = [CHR '']'' # rest]
         \<and> list_all (\<lambda>c. \<not> isLineTerminator c \<and> c \<noteq> CHR '']'') (x # u)"
      using u d False by simp
    then show ?thesis by blast
  qed
qed

lemma list_group_chars:
  assumes "rsearch (listRegex key) s = Some g"
  shows "list_all (\<lambda>c. \<not> isLineTerminator c \<and> c \<noteq> CHR '']'') (group1 g)"
proof -
  from rsearch_is_match[OF assms] obtain s1 where "rmatch (listRegex key) s1 = Some g" by blast
  then have "rmatch (lit (key @ '':'')
       @ [Star Space, Chr (CHR ''[''), GOpen, Lazy Dot, GClose, Chr (CHR '']'')]) s1 = Some g"
    by (simp only: listRegex_alt)
  from lit_is_match[OF this] obtain s2 where
    "rmatch [Star Space, Chr (CHR ''[''), GOpen, Lazy Dot, GClose, Chr (CHR '']'')] s2 = Some g"
    by blast
  from star_is_match[OF this] obtain s3 where
    "rmatch [Chr (CHR ''[''), GOpen, Lazy Dot, GClose, Chr (CHR '']'')] s3 = Some g" by blast
  from chr_is_match[OF this] obtain s4 where
    m: "rmatch [GOpen, Lazy Dot, GClose, Chr (CHR '']'')] s4 = Some g" by blast
  obtain ms rest where g: "g = (s4 # ms, rest)"
    and l: "rmatch [Lazy Dot, GClose, Chr (CHR '']'')] s4 = Some (ms, rest)"
    using m by auto
  from lazy_bracket[OF l] obtain u where
    u: "s4 = u @ CHR '']'' # rest" "ms = [CHR '']'' # rest]"
       "list_all (\<lambda>c. \<not> isLineTerminator c \<and> c \<noteq> CHR '']'') u" by blast
  have "group1 g = u" unfolding g u(1) u(2) by simp
  then show ?thesis using u(3) by simp
qed

lemma splitOn_pieces: "t \<in> set (splitOn p g) \<Longrightarrow> \<forall>c \<in> set t. \<not> p c \<and> c \<in> set g"
proof (induction g arbitrary: t)
  case Nil
  then show ?case by simp
next
  case (Cons x g)
  show ?case
  proof (cases "p x")
    case True
    then have "t = [] \<or> t \<in> set (splitOn p g)" using Cons.prems by simp
    then show ?thesis using Cons.IH by auto
  next
    case False
    show ?thesis
    proof (cases "splitOn p g")
      case Nil
      then show ?thesis using Cons.prems False by simp
    next
      case (Cons w ws)
      then have "t = x # w \<or> t \<in> set ws" using Cons.prems False by simp
      moreover have "\<forall>c \<in> set w. \<not> p c \<and> c \<in> set g" using Cons.IH[of w] Cons by simp
      moreover have "t \<in> set ws \<Longrightarrow> \<forall>c \<in> set t. \<not> p c \<and> c \<in> set g"
        using Cons.IH[of t] Cons by simp
      ultimately show ?thesis using False by auto
    qed
  qed
qed

lemma set_trim: "set (trim t) \<subseteq> set t"
proof -
  have "set (trim t) \<subseteq> set (dropWhile isSpace t)"
    unfolding trim_def using set_dropWhileD[of _ isSpace "rev (dropWhile isSpace t)"] by auto
  also have "\<dots> \<subseteq> set t" using set_dropWhileD[of _ isSpace t] by auto
  finally show ?thesis .
qed

lemma parseList_entries:
  assumes "e \<in> set (parseList g)"
  shows "e \<noteq> [] \<and> (\<forall>c \<in> set e. \<not> isQuote c \<and> c \<noteq> CHR '','' \<and> c \<in> set g)"
proof -
  from assms obtain t where t: "t \<in> set (splitOn (\<lambda>c. c = CHR '','') g)"
    and e: "e = filter (\<lambda>c. \<not> isQuote c) (trim t)" and ne: "e \<noteq> []"
    by (auto simp: parseList_def)
  have "\<forall>c \<in> set t. c \<noteq> CHR '','' \<and> c \<in> set g" using splitOn_pieces[OF t] by simp
  then have "\<forall>c \<in> set e. \<not> isQuote c \<and> c \<noteq> CHR '','' \<and> c \<in> set g"
    unfolding e using set_trim[of t] by auto
  then show ?thesis using ne by simp
qed

lemma parsed_list_entries:
  assumes "rsearch (listRegex key) s = Some g" "e \<in> set (parseList (group1 g))"
  shows "e \<noteq> [] \<and> (\<forall>c \<in> set e. \<not> isQuote c \<and> c \<noteq> CHR '','' \<and> c \<noteq> CHR '']''
           \<and> \<not> isLineTerminator c)"
  using parseList_entries[OF assms(2)] list_group_chars[OF assms(1)]
  by (auto simp: list_all_iff)

lemma parsed_tags_eq:
  "tags (fst (parseFrontmatter c)) =
     (case rmatch frontmatterRegex c of None \<Rightarrow> []
      | Some mt \<Rightarrow> (case rsearch (listRegex ''tags'') (group1 mt) of None \<Rightarrow> []
          | Some g \<Rightarrow> parseList (group1 g)))"
  by (simp add: parseFrontmatter_def Let_def createDefaultMetadata_def split: option.splits)

lemma parsed_relevantTo_eq:
  "relevantTo (fst (parseFrontmatter c)) =
     (case rmatch frontmatterRegex c of None \<Rightarrow> []
      | Some mt \<Rightarrow> (case rsearch (listRegex ''relevantTo'') (group1 mt) of None \<Rightarrow> []
          | Some g \<Rightarrow> parseList (group1 g)))"
  by (simp add: parseFrontmatter_def Let_def createDefaultMetadata_def split: option.splits)

lemma parsed_relatedFiles_eq:
  "relatedFiles (fst (parseFrontmatter c)) =
     (case rmatch frontmatterRegex c of None \<Rightarrow> []
      | Some mt \<Rightarrow> (case rsearch (listRegex ''relatedFiles'') (group1 mt) of None \<Rightarrow> []
          | Some g \<Rightarrow> parseList (group1 g)))"
  by (simp add: parseFrontmatter_def Let_def createDefaultMetadata_def split: option.splits)

lemma parsed_list_case:
  assumes "e \<in> set (case rsearch (listRegex key) s of None \<Rightarrow> []
                     | Some g \<Rightarrow> parseList (group1 g))"
  shows "e \<noteq> [] \<and> (\<forall>ch \<in> set e. \<not> isQuote ch \<and> ch \<noteq> CHR '','' \<and> ch \<noteq> CHR '']''
           \<and> \<not> isLineTerminator ch)"
proof (cases "rsearch (listRegex key) s")
  case None
  then show ?thesis using assms by simp
next
  case (Some g)
  then have "e \<in> set (parseList (group1 g))" using assms by simp
  with Some show ?thesis by (rule parsed_list_entries)
qed

lemma parsed_entries:
  assumes "e \<in> set (tags (fst (parseFrontmatter c)))
         \<or> e \<in> set (relevantTo (fst (parseFrontmatter c)))
         \<or> e \<in> set (relatedFiles (fst (parseFrontmatter c)))"
  shows "e \<noteq> [] \<and> (\<forall>ch \<in> set e. \<not> isQuote ch \<and> ch \<noteq> CHR '','' \<and> ch \<noteq> CHR '']''
           \<and> \<not> isLineTerminator ch)"
proof (cases "rmatch frontmatterRegex c")
  case None
  then show ?thesis
    using assms by (simp add: parsed_tags_eq parsed_relevantTo_eq parsed_relatedFiles_eq)
next
  case (Some mt)
  from assms show ?thesis
    unfolding parsed_tags_eq parsed_relevantTo_eq parsed_relatedFiles_eq Some option.case
    using parsed_list_case by blast
qed

section \<open>Reading a rewritten file again\<close>

text \<open>
  The body that \<open>parseFrontmatter\<close> returns for an input with a block never starts with
  white space that holds a line feed: the closing delimiter has taken it.
\<close>

lemma delim_end_none:
  "LF \<in> set (takeWhile isSpace b) \<Longrightarrow> rmatch [Star Space, Opt CR, Chr LF] b \<noteq> None"
proof (induction b)
  case Nil
  then show ?case by simp
next
  case (Cons x b)
  have sp: "isSpace x" using Cons.prems by (cases "isSpace x") auto
  show ?case
  proof (cases "LF \<in> set (takeWhile isSpace b)")
    case True
    from Cons.IH[OF True] obtain res where "rmatch [Star Space, Opt CR, Chr LF] b = Some res"
      by auto
    then show ?thesis using sp by simp
  next
    case False
    then have x: "x = LF" using Cons.prems sp by simp
    show ?thesis
    proof (cases "rmatch [Star Space, Opt CR, Chr LF] b")
      case None
      then show ?thesis using sp x by simp
    next
      case (Some res)
      then show ?thesis using sp by simp
    qed
  qed
qed

lemma delim_end_rest:
  "rmatch [Star Space, Opt CR, Chr LF] s = Some (ms, rest) \<Longrightarrow> plainBody rest"
proof (induction s)
  case Nil
  then show ?case by simp
next
  case (Cons x s)
  show ?case
  proof (cases "rmatch [Star Space, Opt CR, Chr LF] s")
    case (Some res)
    show ?thesis
    proof (cases "isSpace x")
      case True
      then have "rmatch [Star Space, Opt CR, Chr LF] s = Some (ms, rest)"
        using Cons.prems Some by simp
      then show ?thesis by (rule Cons.IH)
    next
      case False
      then have "x \<noteq> LF" "x \<noteq> CR" by (auto simp: isSpace_def)
      then show ?thesis using Cons.prems False by simp
    qed
  next
    case None
    then have nl: "LF \<notin> set (takeWhile isSpace s)" using delim_end_none by blast
    have m: "rmatch [Opt CR, Chr LF] (x # s) = Some (ms, rest)"
      using Cons.prems None by (simp split: if_splits)
    show ?thesis
    proof (cases "x = CR")
      case True
      have "s = [] \<or> hd s \<noteq> LF"
      proof (cases s)
        case Nil
        then show ?thesis by simp
      next
        case (Cons y ys)
        have "isSpace LF" by (simp add: isSpace_def)
        then show ?thesis using nl Cons by auto
      qed
      then have "rmatch [Chr LF] s = None" by (cases s) auto
      then show ?thesis using m True by simp
    next
      case False
      then have "x = LF \<and> rest = s" using m by (simp split: if_splits)
      then show ?thesis using nl by (simp add: plainBody_def)
    qed
  qed
qed


lemma rmatch_rest_plain:
  "suffix [Star Space, Opt CR, Chr LF] re \<Longrightarrow> rmatch re s = Some (ms, rest) \<Longrightarrow> plainBody rest"
proof (induction re s arbitrary: ms rest rule: rmatch.induct)
  case (1 s)
  then show ?case by simp
next
  case (2 c r)
  then show ?case by simp
next
  case (3 c r x xs)
  from 3(2) have sf: "suffix [Star Space, Opt CR, Chr LF] r" by (simp add: suffix_Cons)
  from 3(3) have e: "x = c" and m: "rmatch r xs = Some (ms, rest)"
    by (simp_all split: if_splits)
  from 3(1)[OF e sf m] show ?case .
next
  case (4 c r)
  from 4(2) have sf: "suffix [Star Space, Opt CR, Chr LF] r" by (simp add: suffix_Cons)
  from 4(3) have "rmatch r [] = Some (ms, rest)" by simp
  from 4(1)[OF sf this] show ?case .
next
  case (5 c r x xs)
  from 5(4) have sf: "suffix [Star Space, Opt CR, Chr LF] r" by (simp add: suffix_Cons)
  show ?case
  proof (cases "x = c \<and> rmatch r xs \<noteq> None")
    case True
    then have e: "x = c" and m: "rmatch r xs = Some (ms, rest)"
      using 5(5) by (auto split: option.splits)
    from 5(1)[OF e sf m] show ?thesis .
  next
    case False
    then have m: "rmatch r (x # xs) = Some (ms, rest)"
      using 5(5) by (auto split: if_splits option.splits)
    show ?thesis
    proof (cases "x = c")
      case True
      with False have "rmatch r xs = None" by (cases "rmatch r xs") auto
      from 5(2)[OF True this sf m] show ?thesis .
    next
      case F: False
      from 5(3)[OF F sf m] show ?thesis .
    qed
  qed
next
  case (6 k r)
  show ?case
  proof (cases "Star k # r = [Star Space, Opt CR, Chr LF]")
    case True
    then show ?thesis using 6(3) delim_end_rest by simp
  next
    case False
    then have sf: "suffix [Star Space, Opt CR, Chr LF] r" using 6(2) by (auto simp: suffix_Cons)
    from 6(3) have "rmatch r [] = Some (ms, rest)" by simp
    from 6(1)[OF sf this] show ?thesis .
  qed
next
  case (7 k r x xs)
  show ?case
  proof (cases "Star k # r = [Star Space, Opt CR, Chr LF]")
    case True
    then show ?thesis using 7(5) delim_end_rest by metis
  next
    case N: False
    then have sf: "suffix [Star Space, Opt CR, Chr LF] r" using 7(4) by (auto simp: suffix_Cons)
    show ?thesis
    proof (cases "in_cls k x \<and> rmatch (Star k # r) xs \<noteq> None")
      case True
      then have t: "in_cls k x" and m: "rmatch (Star k # r) xs = Some (ms, rest)"
        using 7(5) by (auto split: option.splits)
      from 7(1)[OF t 7(4) m] show ?thesis .
    next
      case False
      then have m: "rmatch r (x # xs) = Some (ms, rest)"
        using 7(5) by (auto split: if_splits option.splits)
      show ?thesis
      proof (cases "in_cls k x")
        case True
        with False have "rmatch (Star k # r) xs = None" by (cases "rmatch (Star k # r) xs") auto
        from 7(2)[OF True this sf m] show ?thesis .
      next
        case F: False
        from 7(3)[OF F sf m] show ?thesis .
      qed
    qed
  qed
next
  case (8 k r)
  then show ?case by simp
next
  case (9 k r x xs)
  from 9(2) have sf: "suffix [Star Space, Opt CR, Chr LF] r" by (simp add: suffix_Cons)
  then have sf': "suffix [Star Space, Opt CR, Chr LF] (Star k # r)" by (simp add: suffix_Cons)
  from 9(3) have t: "in_cls k x" and m: "rmatch (Star k # r) xs = Some (ms, rest)"
    by (simp_all split: if_splits)
  from 9(1)[OF t sf' m] show ?case .
next
  case (10 k r)
  from 10(2) have sf: "suffix [Star Space, Opt CR, Chr LF] r" by (simp add: suffix_Cons)
  from 10(3) have "rmatch r [] = Some (ms, rest)" by simp
  from 10(1)[OF sf this] show ?case .
next
  case (11 k r x xs)
  from 11(3) have sf: "suffix [Star Space, Opt CR, Chr LF] r" by (simp add: suffix_Cons)
  show ?case
  proof (cases "rmatch r (x # xs)")
    case (Some res)
    then have m: "rmatch r (x # xs) = Some (ms, rest)" using 11(4) by simp
    from 11(1)[OF sf m] show ?thesis .
  next
    case None
    with 11(4) have t: "in_cls k x" and m: "rmatch (Lazy k # r) xs = Some (ms, rest)"
      by (simp_all split: if_splits)
    from 11(2)[OF None t 11(3) m] show ?thesis .
  qed
next
  case (12 r s)
  from 12(2) have sf: "suffix [Star Space, Opt CR, Chr LF] r" by (simp add: suffix_Cons)
  from 12(3) obtain ms' where "rmatch r s = Some (ms', rest)" by auto
  from 12(1)[OF sf this] show ?case .
next
  case (13 r s)
  from 13(2) have sf: "suffix [Star Space, Opt CR, Chr LF] r" by (simp add: suffix_Cons)
  from 13(3) obtain ms' where "rmatch r s = Some (ms', rest)" by auto
  from 13(1)[OF sf this] show ?case .
qed

lemma parse_body_plain:
  assumes "rmatch frontmatterRegex content \<noteq> None"
  shows "plainBody (snd (parseFrontmatter content))"
proof -
  from assms obtain ms rest where m: "rmatch frontmatterRegex content = Some (ms, rest)"
    by (cases "rmatch frontmatterRegex content") auto
  have "suffix [Star Space, Opt CR, Chr LF] frontmatterRegex"
    by (simp add: frontmatterRegex_def lit_def suffix_Cons)
  then have "plainBody rest" using m by (rule rmatch_rest_plain)
  then show ?thesis by (simp add: parseFrontmatter_def m Let_def)
qed

text \<open>
  When the metadata that \<open>incrementUsageStat\<close> writes meets the conditions of
  \<open>roundTrippable\<close>, the rewritten file is read as that metadata, with the counter one
  higher, and the same body.
\<close>

lemma parse_unmatched:
  "rmatch frontmatterRegex content = None \<Longrightarrow> parseFrontmatter content = (createDefaultMetadata, content)"
  by (simp add: parseFrontmatter_def)

lemma reread_incremented:
  assumes "roundTrippable ((fst (parseFrontmatter c))
             \<lparr>usageStats := incrementStat st (usageStats (fst (parseFrontmatter c)))\<rparr>)"
  shows "parseFrontmatter
           (serializeFrontmatter ((fst (parseFrontmatter c))
              \<lparr>usageStats := incrementStat st (usageStats (fst (parseFrontmatter c)))\<rparr>)
            @ [LF] @ snd (parseFrontmatter c))
         = ((fst (parseFrontmatter c))
              \<lparr>usageStats := incrementStat st (usageStats (fst (parseFrontmatter c)))\<rparr>,
            snd (parseFrontmatter c))"
proof -
  have s: "summary (fst (parseFrontmatter c)) \<noteq> []"
    using assms by (simp add: roundTrippable_def plainSummary_def)
  have "rmatch frontmatterRegex c \<noteq> None"
  proof
    assume "rmatch frontmatterRegex c = None"
    then have "parseFrontmatter c = (createDefaultMetadata, c)" by (rule parse_unmatched)
    then show False using s by (simp add: createDefaultMetadata_def)
  qed
  then have "plainBody (snd (parseFrontmatter c))" by (rule parse_body_plain)
  with assms show ?thesis by (rule parse_serialized)
qed

text \<open>
  C9.  On a file that begins with a frontmatter block, \<open>incrementUsageStat\<close> is to leave
  the named counter one higher and the body as it was.  It does not when the name of the
  counter occurs earlier in the block.  In the file below, \<open>/loaded:\s*(\d+)/\<close> finds
  \<open>loaded: 3\<close> in the summary line, ahead of the line of the counter: the counter is
  read as 3, the file is rewritten with the line of the counter at 4 where it was 5, the
  rewritten file is read as 3 again, and a second call writes the same file once more.
\<close>

theorem incrementUsageStat_shadowed_counter:
  "hasFrontmatterBlock
     ''---\<newline>summary: times loaded: 3\<newline>usageStats:\<newline>  loaded: 5\<newline>---\<newline>body''
   \<and> parseFrontmatter
       ''---\<newline>summary: times loaded: 3\<newline>usageStats:\<newline>  loaded: 5\<newline>---\<newline>body''
     = (createDefaultMetadata\<lparr>summary := ''times loaded: 3'',
          usageStats := \<lparr>loaded = 3, referenced = 0, successfulFeatures = 0\<rparr>\<rparr>, ''body'')
   \<and> files (snd (incrementUsageStat
        \<lparr>files = [''/m/api.md'' \<mapsto>
           ''---\<newline>summary: times loaded: 3\<newline>usageStats:\<newline>  loaded: 5\<newline>---\<newline>body''],
         unreadable = {}, unwritable = {}\<rparr> ''/m/api.md'' Loaded)) ''/m/api.md''
     = Some (''---\<newline>tags: []\<newline>summary: '' @ [dquote] @ ''times loaded: 3'' @ [dquote]
         @ ''\<newline>relevantTo: []\<newline>importance: 0.5\<newline>relatedFiles: []\<newline>usageStats:\<newline>  loaded: 4\<newline>  referenced: 0\<newline>  successfulFeatures: 0\<newline>---\<newline>body'')
   \<and> parseFrontmatter
       (''---\<newline>tags: []\<newline>summary: '' @ [dquote] @ ''times loaded: 3'' @ [dquote]
         @ ''\<newline>relevantTo: []\<newline>importance: 0.5\<newline>relatedFiles: []\<newline>usageStats:\<newline>  loaded: 4\<newline>  referenced: 0\<newline>  successfulFeatures: 0\<newline>---\<newline>body'')
     = (createDefaultMetadata\<lparr>summary := ''times loaded: 3'',
          usageStats := \<lparr>loaded = 3, referenced = 0, successfulFeatures = 0\<rparr>\<rparr>, ''body'')
   \<and> files (snd (incrementUsageStat (snd (incrementUsageStat
        \<lparr>files = [''/m/api.md'' \<mapsto>
           ''---\<newline>summary: times loaded: 3\<newline>usageStats:\<newline>  loaded: 5\<newline>---\<newline>body''],
         unreadable = {}, unwritable = {}\<rparr> ''/m/api.md'' Loaded)) ''/m/api.md'' Loaded)) ''/m/api.md''
     = Some (''---\<newline>tags: []\<newline>summary: '' @ [dquote] @ ''times loaded: 3'' @ [dquote]
         @ ''\<newline>relevantTo: []\<newline>importance: 0.5\<newline>relatedFiles: []\<newline>usageStats:\<newline>  loaded: 4\<newline>  referenced: 0\<newline>  successfulFeatures: 0\<newline>---\<newline>body'')"
  by code_simp

section \<open>Claims about concurrent calls\<close>

text \<open>
  Two calls issued together are serialized: the second call finds the promise of the
  first in \<open>fileLocks\<close>, waits, and reads what the first has written.
\<close>

lemma two_calls_serialized:
  "calls (concurrentCalls 2 c) = [Reading 0, Waiting 0]"
  "calls (runCalls stat 2 c [ReadDone 0, WriteDone 0]) = [Returned, Reading 1]"
  "calls (runCalls stat 2 c [ReadDone 0, WriteDone 0, ReadDone 1, WriteDone 1])
     = [Returned, Returned]"
  "fileText (runCalls stat 2 c [ReadDone 0, WriteDone 0, ReadDone 1, WriteDone 1])
     = updatedContent stat (updatedContent stat c)"
  by (simp_all add: runCalls_def concurrentCalls_def numeral_2_eq_2 startCall_def acquire_def
      readDone_def writeDone_def resumeWaiters_def)

text \<open>
  With three calls, the second and the third both wait for the promise of the first.  When
  it resolves both resume, and neither looks at \<open>fileLocks\<close> again: both have issued
  \<open>readFile\<close> before either writes.
\<close>

lemma three_calls_run:
  "calls (concurrentCalls 3 c) = [Reading 0, Waiting 0, Waiting 0]"
  "calls (runCalls stat 3 c [ReadDone 0, WriteDone 0]) = [Returned, Reading 1, Reading 2]"
  "calls (runCalls stat 3 c
      [ReadDone 0, WriteDone 0, ReadDone 1, ReadDone 2, WriteDone 1, WriteDone 2])
   = [Returned, Returned, Returned]"
  "fileText (runCalls stat 3 c
      [ReadDone 0, WriteDone 0, ReadDone 1, ReadDone 2, WriteDone 1, WriteDone 2])
   = updatedContent stat (updatedContent stat c)"
  by (simp_all add: runCalls_def concurrentCalls_def numeral_3_eq_3 startCall_def acquire_def
      readDone_def writeDone_def resumeWaiters_def)

lemma loaded_seven:
  "loaded (usageStats (fst (parseFrontmatter
      ''---\<newline>usageStats:\<newline>  loaded: 7\<newline>---\<newline>text''))) = 7"
  "loaded (usageStats (fst (parseFrontmatter (updatedContent Loaded (updatedContent Loaded
      ''---\<newline>usageStats:\<newline>  loaded: 7\<newline>---\<newline>text''))))) = 9"
  by code_simp+

text \<open>
  C2.  N concurrent calls of \<open>incrementUsageStat\<close> naming the same counter on the same
  file are to be serialized in the order in which they asked for the lock, all to complete,
  and the counter to end at its initial value plus N.  The code does not do this for three
  calls whose reads and writes complete in the order in which they were issued: after the
  first call has written and returned, the second and the third call are both between
  their \<open>readFile\<close> and their \<open>writeFile\<close>; all three calls return; and the file
  ends with the content that two increments produce, whatever the file and the counter.
  A file whose \<open>loaded\<close> counter is 7 ends with the counter at 9, not 10.
\<close>

theorem incrementUsageStat_lost_update:
  "calls (concurrentCalls 3 c) = [Reading 0, Waiting 0, Waiting 0]
   \<and> calls (runCalls stat 3 c [ReadDone 0, WriteDone 0]) = [Returned, Reading 1, Reading 2]
   \<and> calls (runCalls stat 3 c
        [ReadDone 0, WriteDone 0, ReadDone 1, ReadDone 2, WriteDone 1, WriteDone 2])
     = [Returned, Returned, Returned]
   \<and> fileText (runCalls stat 3 c
        [ReadDone 0, WriteDone 0, ReadDone 1, ReadDone 2, WriteDone 1, WriteDone 2])
     = updatedContent stat (updatedContent stat c)
   \<and> loaded (usageStats (fst (parseFrontmatter
        ''---\<newline>usageStats:\<newline>  loaded: 7\<newline>---\<newline>text''))) = 7
   \<and> loaded (usageStats (fst (parseFrontmatter (fileText (runCalls Loaded 3
        ''---\<newline>usageStats:\<newline>  loaded: 7\<newline>---\<newline>text''
        [ReadDone 0, WriteDone 0, ReadDone 1, ReadDone 2, WriteDone 1, WriteDone 2]))))) = 9"
  unfolding three_calls_run loaded_seven by (intro conjI refl)

end
